theory Spec2Isabelle
  imports Main "HOL-Library.Word"
begin

section \<open>Data model\<close>

type_synonym u32 = "32 word"
type_synonym u64 = "64 word"
type_synonym byte = "8 word"

text \<open>
  \<^verbatim>\<open>models.GTIDPosition\<close>. The field \<^verbatim>\<open>CreatedAt\<close> (\<^verbatim>\<open>time.Now()\<close>) is left out: no
  decision of the code reads it.
\<close>

record GTIDPosition =
  BinlogFile :: string
  Position :: u32
  CommitPosition :: u32
  ResumePosition :: u32
  Timestamp :: u32
  GTID :: string
  ServerUUID :: string
  GNO :: u64
  Database :: string
  NextGTID :: string

text \<open>
  \<^verbatim>\<open>replication.EventHeader\<close>: the fields the searcher reads. The header's
  \<^verbatim>\<open>Timestamp\<close> is named \<open>EvTimestamp\<close> here, since \<open>Timestamp\<close> is the field of
  \<open>GTIDPosition\<close>. The header's \<^verbatim>\<open>EventType\<close> is the constructor of the payload.
\<close>

record EventHeader =
  EvTimestamp :: u32
  LogPos :: u32
  EventSize :: u32

text \<open>
  The payloads the searcher looks at. \<^verbatim>\<open>GTIDEvent.SID\<close> is a byte slice (capacity equal
  to length), \<^verbatim>\<open>GTIDEvent.GNO\<close> an \<^verbatim>\<open>int64\<close>, \<^verbatim>\<open>QueryEvent.Schema\<close> and
  \<^verbatim>\<open>QueryEvent.Query\<close> byte slices, \<^verbatim>\<open>PreviousGTIDsEvent.GTIDSets\<close> and
  \<^verbatim>\<open>RotateEvent.NextLogName\<close> texts.
\<close>

datatype Event =
    GTIDEvent "byte list" u64
  | XIDEvent
  | QueryEvent string string
  | PreviousGTIDsEvent string
  | RotateEvent string
  | OtherEvent

record BinlogEvent =
  Header :: EventHeader
  Event :: Event

text \<open>
  \<^verbatim>\<open>models.Config\<close>: the fields the searchers read. A \<^verbatim>\<open>time.Time\<close> is \<open>None\<close> when
  \<^verbatim>\<open>IsZero()\<close> holds and \<open>Some s\<close> with \<open>s\<close> its \<^verbatim>\<open>Unix()\<close> seconds otherwise.
  \<^verbatim>\<open>Parallel\<close> is the capacity of the semaphore channel; a negative capacity, with which
  \<^verbatim>\<open>make\<close> panics, is left out.
\<close>

record Config =
  FilterDatabase :: string
  StartTime :: "int option"
  EndTime :: "int option"
  StartFile :: string
  Parallel :: nat

text \<open>
  The GTID-set library (\<^verbatim>\<open>mysql.ParseMysqlGTIDSet\<close>, \<^verbatim>\<open>GTIDSet.Contain\<close>) is an external
  dependency: it is a parameter of the model. A parse yields \<open>Inl msg\<close> for an error.
\<close>

record 'g GTIDLib =
  ParseMysqlGTIDSet :: "string \<Rightarrow> string + 'g"
  Contain :: "'g \<Rightarrow> 'g \<Rightarrow> bool"

text \<open>A Go call either panics or returns.\<close>

datatype 'a go = Panic | Ret 'a

section \<open>Formatting\<close>

text \<open>\<^verbatim>\<open>fmt.Sprintf("%x", bytes)\<close>: two lower-case hexadecimal digits per byte.\<close>

definition hexDigit :: "nat \<Rightarrow> char" where
  "hexDigit n = ''0123456789abcdef'' ! (n mod 16)"

definition hexByte :: "byte \<Rightarrow> string" where
  "hexByte b = [hexDigit (unat b div 16), hexDigit (unat b mod 16)]"

definition hexBytes :: "byte list \<Rightarrow> string" where
  "hexBytes bs = concat (map hexByte bs)"

text \<open>\<^verbatim>\<open>fmt.Sprintf("%d", n)\<close> for a non-negative number, with fuel for the digits.\<close>

fun decDigits :: "nat \<Rightarrow> nat \<Rightarrow> string \<Rightarrow> string" where
  "decDigits 0 n acc = acc"
| "decDigits (Suc k) n acc =
     (let acc' = (''0123456789'' ! (n mod 10)) # acc
      in if n < 10 then acc' else decDigits k (n div 10) acc')"

definition decNat :: "nat \<Rightarrow> string" where
  "decNat n = decDigits 20 n []"

text \<open>\<^verbatim>\<open>fmt.Sprintf("%d", gno)\<close> for the \<^verbatim>\<open>int64\<close> held in a 64-bit word.\<close>

definition decInt64 :: "u64 \<Rightarrow> string" where
  "decInt64 w = (if sint w < 0 then CHR ''-'' # decNat (nat (- sint w)) else decNat (nat (sint w)))"

text \<open>
  The slice expression \<^verbatim>\<open>s[lo:hi]\<close>: the caller has checked \<open>hi \<le> length s\<close>.
\<close>

definition slice :: "'a list \<Rightarrow> nat \<Rightarrow> nat \<Rightarrow> 'a list" where
  "slice s lo hi = take (hi - lo) (drop lo s)"

text \<open>
  \<^verbatim>\<open>fmt.Sprintf("%x-%x-%x-%x-%x", SID[0:4], SID[4:6], SID[6:8], SID[8:10], SID[10:16])\<close>.
  The slice expressions panic when the slice is shorter than 16 bytes.
\<close>

definition uuidStr :: "byte list \<Rightarrow> string go" where
  "uuidStr sid =
     (if length sid < 16 then Panic
      else Ret (hexBytes (slice sid 0 4) @ ''-'' @ hexBytes (slice sid 4 6) @ ''-'' @
                hexBytes (slice sid 6 8) @ ''-'' @ hexBytes (slice sid 8 10) @ ''-'' @
                hexBytes (slice sid 10 16)))"

text \<open>\<^verbatim>\<open>fmt.Sprintf("%s:%d", uuidStr, gtidEvent.GNO)\<close>.\<close>

definition gtidStr :: "string \<Rightarrow> u64 \<Rightarrow> string" where
  "gtidStr uuid gno = uuid @ '':'' @ decInt64 gno"

section \<open>The event stream provider\<close>

text \<open>
  The provider is the interface \<^verbatim>\<open>BinlogParser\<close>; the implementations in the repository
  are \<^verbatim>\<open>MockBinlogParser\<close> (a list whose entries are an error or an event, and an optional
  forced error) and \<^verbatim>\<open>SmartMockParser\<close> (a table from file names to such parsers). An error
  is its message. The callback closes over local variables of its caller: here it takes
  them as a state and returns them with its error.
\<close>

datatype item = ItemErr string | ItemEv BinlogEvent

record MockBinlogParser =
  events :: "item list"
  forcedError :: "string option"

datatype BinlogParser =
    Mock MockBinlogParser
  | SmartMock "(string \<times> MockBinlogParser) list"

type_synonym 's OnEventFunc = "'s \<Rightarrow> BinlogEvent \<Rightarrow> (string option \<times> 's) go"

fun runEvents :: "'s OnEventFunc \<Rightarrow> item list \<Rightarrow> 's \<Rightarrow> (string option \<times> 's) go" where
  "runEvents execution [] s = Ret (None, s)"
| "runEvents execution (ItemErr err # evts) s = Ret (Some err, s)"
| "runEvents execution (ItemEv event # evts) s =
     (case execution s event of
        Panic \<Rightarrow> Panic
      | Ret (Some err, s') \<Rightarrow> Ret (Some err, s')
      | Ret (None, s') \<Rightarrow> runEvents execution evts s')"

definition MockParseFile :: "MockBinlogParser \<Rightarrow> 's OnEventFunc \<Rightarrow> 's \<Rightarrow> (string option \<times> 's) go" where
  "MockParseFile m execution s =
     (case forcedError m of
        Some err \<Rightarrow> Ret (Some err, s)
      | None \<Rightarrow> runEvents execution (events m) s)"

fun ParseFile :: "BinlogParser \<Rightarrow> string \<Rightarrow> 's OnEventFunc \<Rightarrow> 's \<Rightarrow> (string option \<times> 's) go" where
  "ParseFile (Mock m) name execution s = MockParseFile m execution s"
| "ParseFile (SmartMock files) name execution s =
     (case map_of files name of
        Some parser \<Rightarrow> MockParseFile parser execution s
      | None \<Rightarrow> Ret (Some (''file not found in mock: '' @ name), s))"

section \<open>The single-file scan\<close>

text \<open>
  \<^verbatim>\<open>Searcher\<close>: its configuration and the parser its factory returns. The flag
  \<^verbatim>\<open>verbose\<close> only prints.
\<close>

record Searcher =
  config :: Config
  parserFactory :: BinlogParser

text \<open>The variables of \<^verbatim>\<open>searchBinlogFile\<close> that its callback updates.\<close>

record ScanState =
  result :: "GTIDPosition option"
  currentDatabase :: string
  currentTransaction :: "GTIDPosition option"

definition initialState :: ScanState where
  "initialState = \<lparr>result = None, currentDatabase = [], currentTransaction = None\<rparr>"

text \<open>\<^verbatim>\<open>uint32(s.config.StartTime.Unix())\<close>, or 0 when the time is zero.\<close>

definition startTimestamp :: "Config \<Rightarrow> u32" where
  "startTimestamp cfg = (case StartTime cfg of None \<Rightarrow> 0 | Some t \<Rightarrow> word_of_int t)"

definition endTimestamp :: "Config \<Rightarrow> u32" where
  "endTimestamp cfg = (case EndTime cfg of None \<Rightarrow> 0 | Some t \<Rightarrow> word_of_int t)"

definition beforeStart :: "Config \<Rightarrow> BinlogEvent \<Rightarrow> bool" where
  "beforeStart cfg e \<longleftrightarrow> startTimestamp cfg > 0 \<and> EvTimestamp (Header e) < startTimestamp cfg"

definition afterEnd :: "Config \<Rightarrow> BinlogEvent \<Rightarrow> bool" where
  "afterEnd cfg e \<longleftrightarrow> endTimestamp cfg > 0 \<and> EvTimestamp (Header e) > endTimestamp cfg"

text \<open>Track database context from a query event.\<close>

definition trackDatabase :: "string \<Rightarrow> BinlogEvent \<Rightarrow> string" where
  "trackDatabase db e =
     (case Event e of
        QueryEvent schema query \<Rightarrow> if length schema > 0 then schema else db
      | _ \<Rightarrow> db)"

text \<open>The record built when a GTID event of the target set opens a transaction.\<close>

definition newTransaction :: "string \<Rightarrow> BinlogEvent \<Rightarrow> string \<Rightarrow> string \<Rightarrow> u64 \<Rightarrow> string \<Rightarrow> GTIDPosition" where
  "newTransaction file e g uuid gno db =
     \<lparr>BinlogFile = file,
      Position = LogPos (Header e) - EventSize (Header e),
      CommitPosition = LogPos (Header e),
      ResumePosition = LogPos (Header e),
      Timestamp = EvTimestamp (Header e),
      GTID = g,
      ServerUUID = uuid,
      GNO = gno,
      Database = db,
      NextGTID = []\<rparr>"

text \<open>
  The block of a GTID event either returns from the callback (with its error) or falls
  through to the rest of the callback.
\<close>

datatype 's flow = Return "string option" 's | Fallthrough 's

definition checkGTID :: "'g GTIDLib \<Rightarrow> Config \<Rightarrow> string \<Rightarrow> 'g \<Rightarrow> ScanState \<Rightarrow> BinlogEvent \<Rightarrow> ScanState flow go" where
  "checkGTID lib cfg filepath targetGTID st e =
     (case Event e of
        GTIDEvent sid gno \<Rightarrow>
          (case uuidStr sid of
             Panic \<Rightarrow> Panic
           | Ret uuid \<Rightarrow>
               (case ParseMysqlGTIDSet lib (gtidStr uuid gno) of
                  Inl err \<Rightarrow> Ret (Return None st)
                | Inr currentGTID \<Rightarrow>
                    if Contain lib targetGTID currentGTID then
                      if FilterDatabase cfg \<noteq> [] \<and> currentDatabase st \<noteq> FilterDatabase cfg
                      then Ret (Return None (st\<lparr>currentTransaction := None\<rparr>))
                      else Ret (Fallthrough (st\<lparr>currentTransaction :=
                             Some (newTransaction filepath e (gtidStr uuid gno) uuid gno (currentDatabase st))\<rparr>))
                    else
                      (case result st of
                         Some r \<Rightarrow>
                           if NextGTID r = []
                           then Ret (Return (Some ''found_next_gtid'')
                                  (st\<lparr>result := Some (r\<lparr>NextGTID := gtidStr uuid gno,
                                                         ResumePosition := LogPos (Header e)\<rparr>)\<rparr>))
                           else Ret (Fallthrough (st\<lparr>currentTransaction := None\<rparr>))
                       | None \<Rightarrow> Ret (Fallthrough (st\<lparr>currentTransaction := None\<rparr>)))))
      | _ \<Rightarrow> Ret (Fallthrough st))"

text \<open>A commit: update the transaction, keep the match with the highest GNO.\<close>

definition commitTransaction :: "GTIDPosition \<Rightarrow> BinlogEvent \<Rightarrow> ScanState \<Rightarrow> ScanState" where
  "commitTransaction t e st =
     (let t' = t\<lparr>CommitPosition := LogPos (Header e),
                 ResumePosition := LogPos (Header e),
                 Timestamp := EvTimestamp (Header e)\<rparr>
      in st\<lparr>result := (case result st of
                          None \<Rightarrow> Some t'
                        | Some r \<Rightarrow> if GNO t' > GNO r then Some t' else Some r),
            currentTransaction := None\<rparr>)"

definition isCommit :: "BinlogEvent \<Rightarrow> bool" where
  "isCommit e =
     (case Event e of
        XIDEvent \<Rightarrow> True
      | QueryEvent schema query \<Rightarrow> query = ''COMMIT'' \<or> query = ''commit''
      | _ \<Rightarrow> False)"

definition trackTransactionEnd :: "ScanState \<Rightarrow> BinlogEvent \<Rightarrow> ScanState" where
  "trackTransactionEnd st e =
     (case currentTransaction st of
        None \<Rightarrow> st
      | Some t \<Rightarrow> if isCommit e then commitTransaction t e st else st)"

text \<open>The callback of \<^verbatim>\<open>searchBinlogFile\<close>.\<close>

definition onEvent :: "'g GTIDLib \<Rightarrow> Config \<Rightarrow> string \<Rightarrow> 'g \<Rightarrow> ScanState OnEventFunc" where
  "onEvent lib cfg filepath targetGTID st e =
     (if beforeStart cfg e then Ret (None, st)
      else if afterEnd cfg e then Ret (None, st)
      else
        (case checkGTID lib cfg filepath targetGTID
                (st\<lparr>currentDatabase := trackDatabase (currentDatabase st) e\<rparr>) e of
           Panic \<Rightarrow> Panic
         | Ret (Return err st') \<Rightarrow> Ret (err, st')
         | Ret (Fallthrough st') \<Rightarrow> Ret (None, trackTransactionEnd st' e)))"

definition searchBinlogFile :: "'g GTIDLib \<Rightarrow> Searcher \<Rightarrow> string \<Rightarrow> 'g \<Rightarrow> (GTIDPosition option \<times> string option) go" where
  "searchBinlogFile lib s filepath targetGTID =
     (case ParseFile (parserFactory s) filepath
             (onEvent lib (config s) filepath targetGTID) initialState of
        Panic \<Rightarrow> Panic
      | Ret (err, st) \<Rightarrow>
          (case err of
             Some msg \<Rightarrow>
               if msg \<noteq> ''found_next_gtid'' then Ret (None, Some msg) else Ret (result st, None)
           | None \<Rightarrow> Ret (result st, None)))"

section \<open>The file scan coordinator\<close>

text \<open>
  The loop of \<^verbatim>\<open>SearchParallel\<close> that collects the best result: from the match held,
  over the matches received in the order of the channel, keep the match with the highest
  GNO.
\<close>

fun bestOf :: "GTIDPosition option \<Rightarrow> GTIDPosition list \<Rightarrow> GTIDPosition option" where
  "bestOf b [] = b"
| "bestOf b (c # cs) =
     bestOf (case b of None \<Rightarrow> Some c | Some r \<Rightarrow> if GNO c > GNO r then Some c else Some r) cs"

text \<open>
  \<^verbatim>\<open>SearchParallel\<close> starts one goroutine per file. A goroutine waits for a slot of the
  semaphore, then looks at the cancellation (\<^verbatim>\<open>ctx.Done()\<close>), then scans its file and
  sends an error or a match, then cancels the context; it frees its slot when it
  returns. The goroutines interleave in an order that the Go scheduler chooses: here a
  schedule, the list of the indices of the goroutines in the order of their steps.
\<close>

datatype pc = Waiting | Acquired | Scanning | Published | Finished

record Coordinator =
  pcs :: "pc list"
  cancelled :: bool
  resultChan :: "GTIDPosition list"
  errorChan :: "string list"

definition holders :: "Coordinator \<Rightarrow> nat" where
  "holders c = length (filter (\<lambda>p. p = Acquired \<or> p = Scanning \<or> p = Published) (pcs c))"

text \<open>
  One step of goroutine \<open>i\<close>: \<open>None\<close> when it cannot take a step (it has returned, or it
  waits and the semaphore is full), a panic of its scan, or the next state.
\<close>

definition workerStep :: "'g GTIDLib \<Rightarrow> Searcher \<Rightarrow> string list \<Rightarrow> 'g \<Rightarrow> nat \<Rightarrow> Coordinator \<Rightarrow> Coordinator go option" where
  "workerStep lib s files targetGTID i c =
     (if i \<ge> length (pcs c) then None
      else
        (case pcs c ! i of
           Waiting \<Rightarrow>
             if holders c < Parallel (config s)
             then Some (Ret (c\<lparr>pcs := (pcs c)[i := Acquired]\<rparr>))
             else None
         | Acquired \<Rightarrow>
             if cancelled c
             then Some (Ret (c\<lparr>pcs := (pcs c)[i := Finished]\<rparr>))
             else Some (Ret (c\<lparr>pcs := (pcs c)[i := Scanning]\<rparr>))
         | Scanning \<Rightarrow>
             (case searchBinlogFile lib s (files ! i) targetGTID of
                Panic \<Rightarrow> Some Panic
              | Ret (res, Some err) \<Rightarrow>
                  Some (Ret (c\<lparr>pcs := (pcs c)[i := Finished],
                               errorChan := errorChan c @ [''error scanning '' @ files ! i @ '': '' @ err]\<rparr>))
              | Ret (None, None) \<Rightarrow> Some (Ret (c\<lparr>pcs := (pcs c)[i := Finished]\<rparr>))
              | Ret (Some r, None) \<Rightarrow>
                  Some (Ret (c\<lparr>pcs := (pcs c)[i := Published], resultChan := resultChan c @ [r]\<rparr>)))
         | Published \<Rightarrow> Some (Ret (c\<lparr>pcs := (pcs c)[i := Finished], cancelled := True\<rparr>))
         | Finished \<Rightarrow> None))"

fun runSchedule :: "'g GTIDLib \<Rightarrow> Searcher \<Rightarrow> string list \<Rightarrow> 'g \<Rightarrow> nat list \<Rightarrow> Coordinator \<Rightarrow> Coordinator go option" where
  "runSchedule lib s files targetGTID [] c = Some (Ret c)"
| "runSchedule lib s files targetGTID (i # sched) c =
     (case workerStep lib s files targetGTID i c of
        None \<Rightarrow> None
      | Some Panic \<Rightarrow> Some Panic
      | Some (Ret c') \<Rightarrow> runSchedule lib s files targetGTID sched c')"

definition startCoordinator :: "string list \<Rightarrow> Coordinator" where
  "startCoordinator files =
     \<lparr>pcs = replicate (length files) Waiting, cancelled = False, resultChan = [], errorChan = []\<rparr>"

text \<open>
  \<^verbatim>\<open>SearchParallel\<close> under a schedule: \<open>None\<close> when the schedule is not one of its runs (a
  step that cannot be taken, or a goroutine that has not returned at the end), a panic,
  or the best result of the channel and a nil error.
\<close>

definition SearchParallel :: "'g GTIDLib \<Rightarrow> Searcher \<Rightarrow> string list \<Rightarrow> 'g \<Rightarrow> nat list \<Rightarrow> (GTIDPosition option \<times> string option) go option" where
  "SearchParallel lib s files targetGTID sched =
     (case runSchedule lib s files targetGTID sched (startCoordinator files) of
        None \<Rightarrow> None
      | Some Panic \<Rightarrow> Some Panic
      | Some (Ret c) \<Rightarrow>
          if list_all (\<lambda>p. p = Finished) (pcs c)
          then Some (Ret (bestOf None (resultChan c), None))
          else None)"

section \<open>The smart file selector\<close>

text \<open>
  \<^verbatim>\<open>sortSearch\<close>: the binary search. The indices are Go \<^verbatim>\<open>int\<close>s between 0 and the length of
  a slice, so \<^verbatim>\<open>int(uint(i+j) >> 1)\<close> is the half of the sum and nothing overflows.
\<close>

function sortSearchLoop :: "(nat \<Rightarrow> bool) \<Rightarrow> nat \<Rightarrow> nat \<Rightarrow> nat" where
  "sortSearchLoop f i j =
     (if i < j then
        (let h = (i + j) div 2
         in if \<not> f h then sortSearchLoop f (h + 1) j else sortSearchLoop f i h)
      else i)"
  by pat_completeness auto
termination
  by (relation "measure (\<lambda>(f, i, j). j - i)") auto

definition sortSearch :: "nat \<Rightarrow> (nat \<Rightarrow> bool) \<Rightarrow> nat" where
  "sortSearch n f = sortSearchLoop f 0 n"

text \<open>
  The variables of \<^verbatim>\<open>CheckPreviousGTIDs\<close> that its callback updates, and the callback.
\<close>

record 'g HeaderState =
  previousGTIDs :: "'g option"
  foundHeader :: bool

definition onHeaderEvent :: "'g GTIDLib \<Rightarrow> 'g HeaderState OnEventFunc" where
  "onHeaderEvent lib st e =
     (case Event e of
        PreviousGTIDsEvent gtidSets \<Rightarrow>
          (case ParseMysqlGTIDSet lib gtidSets of
             Inl err \<Rightarrow> Ret (Some (''failed to parse GTID set: '' @ err), st)
           | Inr gtidSet \<Rightarrow>
               Ret (Some ''stop_scan'', st\<lparr>previousGTIDs := Some gtidSet, foundHeader := True\<rparr>))
      | _ \<Rightarrow> Ret (None, st))"

definition CheckPreviousGTIDs :: "'g GTIDLib \<Rightarrow> Searcher \<Rightarrow> string \<Rightarrow> 'g \<Rightarrow> (bool \<times> string option) go" where
  "CheckPreviousGTIDs lib s filepath targetGTID =
     (case ParseFile (parserFactory s) filepath (onHeaderEvent lib)
             \<lparr>previousGTIDs = None, foundHeader = False\<rparr> of
        Panic \<Rightarrow> Panic
      | Ret (err, st) \<Rightarrow>
          if err \<noteq> None \<and> err \<noteq> Some ''stop_scan'' then Ret (False, err)
          else if \<not> foundHeader st \<or> previousGTIDs st = None then Ret (False, None)
          else
            (case previousGTIDs st of
               Some prev \<Rightarrow> if Contain lib prev targetGTID then Ret (True, None) else Ret (False, None)
             | None \<Rightarrow> Ret (False, None)))"

text \<open>
  The predicate that \<^verbatim>\<open>FindStartFileUsingHeaders\<close> hands to the binary search: false on
  an error. The header callback never panics (lemma \<open>CheckPreviousGTIDs_returns\<close>), so
  the panic case is never taken.
\<close>

definition headerSkips :: "'g GTIDLib \<Rightarrow> Searcher \<Rightarrow> string list \<Rightarrow> 'g \<Rightarrow> nat \<Rightarrow> bool" where
  "headerSkips lib s files targetGTID i =
     (case CheckPreviousGTIDs lib s (files ! i) targetGTID of
        Ret (skipped, None) \<Rightarrow> skipped
      | Ret (skipped, Some err) \<Rightarrow> False
      | Panic \<Rightarrow> False)"

definition FindStartFileUsingHeaders :: "'g GTIDLib \<Rightarrow> Searcher \<Rightarrow> string list \<Rightarrow> 'g \<Rightarrow> string \<times> string option" where
  "FindStartFileUsingHeaders lib s files targetGTID =
     (if length files = 0 then ([], Some ''no files to search'')
      else
        (let idx = sortSearch (length files) (headerSkips lib s files targetGTID)
         in if idx = 0 then (files ! 0, None)
            else if idx = length files then (files ! (length files - 1), None)
            else (files ! (idx - 1), None)))"

section \<open>The remote stream resolver\<close>

text \<open>
  The replication connection is external. Here it is what it delivers: whether
  \<^verbatim>\<open>StartSync\<close> fails, and the results of the successive \<^verbatim>\<open>GetEvent\<close> calls, each an event,
  the 30 second deadline, or another error. When the list is used up no event arrives any
  more, and the next call runs into its deadline.
\<close>

datatype getEvent = Got BinlogEvent | DeadlineExceeded | GetError string

record BinlogSyncer =
  startSyncError :: "string option"
  stream :: "getEvent list"

record RemoteSearcher =
  remoteConfig :: Config
  syncer :: BinlogSyncer

text \<open>The variables of the loop of \<^verbatim>\<open>RemoteSearcher.Search\<close>.\<close>

record RemoteState =
  rResult :: "GTIDPosition option"
  rCurrentDatabase :: string
  rCurrentTransaction :: "GTIDPosition option"
  startFile :: string

text \<open>One turn of the loop body: go on with the loop, or return from \<^verbatim>\<open>Search\<close>.\<close>

datatype loop = Continue RemoteState | Stop "GTIDPosition option \<times> string option"

datatype rflow = Leave loop | Proceed RemoteState

definition remoteCheckGTID :: "'g GTIDLib \<Rightarrow> Config \<Rightarrow> 'g \<Rightarrow> RemoteState \<Rightarrow> BinlogEvent \<Rightarrow> rflow go" where
  "remoteCheckGTID lib cfg targetGTID st ev =
     (case Event ev of
        GTIDEvent sid gno \<Rightarrow>
          (case uuidStr sid of
             Panic \<Rightarrow> Panic
           | Ret uuid \<Rightarrow>
               (case ParseMysqlGTIDSet lib (gtidStr uuid gno) of
                  Inl err \<Rightarrow> Ret (Leave (Continue st))
                | Inr currentGTID \<Rightarrow>
                    if Contain lib targetGTID currentGTID then
                      if FilterDatabase cfg \<noteq> [] \<and> rCurrentDatabase st \<noteq> FilterDatabase cfg
                      then Ret (Leave (Continue (st\<lparr>rCurrentTransaction := None\<rparr>)))
                      else Ret (Proceed (st\<lparr>rCurrentTransaction :=
                             Some (newTransaction (startFile st) ev (gtidStr uuid gno) uuid gno
                                     (rCurrentDatabase st))\<rparr>))
                    else
                      (case rResult st of
                         Some r \<Rightarrow>
                           if NextGTID r = []
                           then Ret (Leave (Stop (Some (r\<lparr>NextGTID := gtidStr uuid gno,
                                                          ResumePosition := LogPos (Header ev)\<rparr>), None)))
                           else Ret (Proceed (st\<lparr>rCurrentTransaction := None\<rparr>))
                       | None \<Rightarrow> Ret (Proceed (st\<lparr>rCurrentTransaction := None\<rparr>)))))
      | _ \<Rightarrow> Ret (Proceed st))"

definition handleRotation :: "RemoteState \<Rightarrow> BinlogEvent \<Rightarrow> RemoteState" where
  "handleRotation st ev =
     (case Event ev of
        RotateEvent nextLogName \<Rightarrow> st\<lparr>startFile := nextLogName\<rparr>
      | _ \<Rightarrow> st)"

definition remoteCommit :: "GTIDPosition \<Rightarrow> BinlogEvent \<Rightarrow> RemoteState \<Rightarrow> RemoteState" where
  "remoteCommit t ev st =
     (let t' = t\<lparr>CommitPosition := LogPos (Header ev),
                 ResumePosition := LogPos (Header ev),
                 Timestamp := EvTimestamp (Header ev)\<rparr>
      in st\<lparr>rResult := (case rResult st of
                           None \<Rightarrow> Some t'
                         | Some r \<Rightarrow> if GNO t' > GNO r then Some t' else Some r),
            rCurrentTransaction := None\<rparr>)"

definition remoteTransactionEnd :: "RemoteState \<Rightarrow> BinlogEvent \<Rightarrow> RemoteState" where
  "remoteTransactionEnd st ev =
     (case rCurrentTransaction st of
        None \<Rightarrow> st
      | Some t \<Rightarrow>
          (let t1 = t\<lparr>BinlogFile := startFile st\<rparr>
           in if isCommit ev then remoteCommit t1 ev st
              else st\<lparr>rCurrentTransaction := Some t1\<rparr>))"

definition remoteStep :: "'g GTIDLib \<Rightarrow> Config \<Rightarrow> 'g \<Rightarrow> RemoteState \<Rightarrow> BinlogEvent \<Rightarrow> loop go" where
  "remoteStep lib cfg targetGTID st ev =
     (if beforeStart cfg ev then Ret (Continue st)
      else if afterEnd cfg ev then Ret (Stop (rResult st, None))
      else
        (case remoteCheckGTID lib cfg targetGTID
                (st\<lparr>rCurrentDatabase := trackDatabase (rCurrentDatabase st) ev\<rparr>) ev of
           Panic \<Rightarrow> Panic
         | Ret (Leave l) \<Rightarrow> Ret l
         | Ret (Proceed st') \<Rightarrow> Ret (Continue (remoteTransactionEnd (handleRotation st' ev) ev))))"

fun remoteLoop :: "'g GTIDLib \<Rightarrow> Config \<Rightarrow> 'g \<Rightarrow> getEvent list \<Rightarrow> RemoteState \<Rightarrow> (GTIDPosition option \<times> string option) go" where
  "remoteLoop lib cfg targetGTID [] st = Ret (rResult st, None)"
| "remoteLoop lib cfg targetGTID (DeadlineExceeded # rest) st = Ret (rResult st, None)"
| "remoteLoop lib cfg targetGTID (GetError err # rest) st = Ret (None, Some (''get event error: '' @ err))"
| "remoteLoop lib cfg targetGTID (Got ev # rest) st =
     (case remoteStep lib cfg targetGTID st ev of
        Panic \<Rightarrow> Panic
      | Ret (Stop r) \<Rightarrow> Ret r
      | Ret (Continue st') \<Rightarrow> remoteLoop lib cfg targetGTID rest st')"

definition remoteInitialState :: "Config \<Rightarrow> RemoteState" where
  "remoteInitialState cfg =
     \<lparr>rResult = None, rCurrentDatabase = [], rCurrentTransaction = None, startFile = StartFile cfg\<rparr>"

definition Search :: "'g GTIDLib \<Rightarrow> RemoteSearcher \<Rightarrow> 'g \<Rightarrow> (GTIDPosition option \<times> string option) go" where
  "Search lib s targetGTID =
     (if StartFile (remoteConfig s) = []
      then Ret (None, Some ''remote search currently requires -start-file to be specified'')
      else
        (case startSyncError (syncer s) of
           Some err \<Rightarrow> Ret (None, Some (''failed to start sync: '' @ err))
         | None \<Rightarrow>
             remoteLoop lib (remoteConfig s) targetGTID (stream (syncer s))
               (remoteInitialState (remoteConfig s))))"

section \<open>A reference GTID-set library\<close>

text \<open>
  Modelled from the spec: the GTID-set value type of the external library
  (\<^verbatim>\<open>mysql.ParseMysqlGTIDSet\<close>, \<^verbatim>\<open>Contain\<close>), which is not part of the repository. The spec
  describes it as a mapping from server UUID to a set of transaction-number intervals,
  constructed from the text \<^verbatim>\<open>UUID:n\<close> or \<^verbatim>\<open>UUID:n-m[,UUID:n-m...]\<close>, with "does this set
  fully contain that set". It instantiates the library parameter at concrete inputs.
\<close>

type_synonym RefGTIDSet = "(string \<times> (nat \<times> nat) list) list"

fun splitOn :: "char \<Rightarrow> string \<Rightarrow> string \<Rightarrow> string list" where
  "splitOn c [] cur = [rev cur]"
| "splitOn c (x # xs) cur = (if x = c then rev cur # splitOn c xs [] else splitOn c xs (x # cur))"

definition digitVal :: "char \<Rightarrow> nat option" where
  "digitVal c = map_of (zip ''0123456789'' [0, 1, 2, 3, 4, 5, 6, 7, 8, 9]) c"

fun parseDigits :: "string \<Rightarrow> nat \<Rightarrow> nat option" where
  "parseDigits [] acc = Some acc"
| "parseDigits (c # cs) acc =
     (case digitVal c of None \<Rightarrow> None | Some d \<Rightarrow> parseDigits cs (10 * acc + d))"

definition parseNat :: "string \<Rightarrow> nat option" where
  "parseNat s = (if s = [] then None else parseDigits s 0)"

definition parseInterval :: "string \<Rightarrow> (nat \<times> nat) option" where
  "parseInterval s =
     (case splitOn CHR ''-'' s [] of
        [a] \<Rightarrow> (case parseNat a of None \<Rightarrow> None | Some n \<Rightarrow> Some (n, n))
      | [a, b] \<Rightarrow>
          (case (parseNat a, parseNat b) of
             (Some n, Some m) \<Rightarrow> if n \<le> m then Some (n, m) else None
           | _ \<Rightarrow> None)
      | _ \<Rightarrow> None)"

fun allSome :: "'a option list \<Rightarrow> 'a list option" where
  "allSome [] = Some []"
| "allSome (None # xs) = None"
| "allSome (Some x # xs) = (case allSome xs of None \<Rightarrow> None | Some ys \<Rightarrow> Some (x # ys))"

definition parseUUIDSet :: "string \<Rightarrow> (string \<times> (nat \<times> nat) list) option" where
  "parseUUIDSet s =
     (case splitOn CHR '':'' s [] of
        uuid # iv # ivs \<Rightarrow>
          if uuid = [] then None
          else (case allSome (map parseInterval (iv # ivs)) of
                  None \<Rightarrow> None
                | Some is \<Rightarrow> Some (uuid, is))
      | _ \<Rightarrow> None)"

definition refParse :: "string \<Rightarrow> string + RefGTIDSet" where
  "refParse s =
     (if s = [] then Inr []
      else (case allSome (map parseUUIDSet (splitOn CHR '','' s [])) of
              None \<Rightarrow> Inl (''invalid GTID set: '' @ s)
            | Some sets \<Rightarrow> Inr sets))"

definition refHas :: "RefGTIDSet \<Rightarrow> string \<Rightarrow> nat \<Rightarrow> bool" where
  "refHas a uuid n = list_ex (\<lambda>(u, ivs). u = uuid \<and> list_ex (\<lambda>(lo, hi). lo \<le> n \<and> n \<le> hi) ivs) a"

definition refContain :: "RefGTIDSet \<Rightarrow> RefGTIDSet \<Rightarrow> bool" where
  "refContain a b =
     list_all (\<lambda>(u, ivs). list_all (\<lambda>(lo, hi). list_all (refHas a u) [lo..<Suc hi]) ivs) b"

definition refLib :: "RefGTIDSet GTIDLib" where
  "refLib = \<lparr>ParseMysqlGTIDSet = refParse, Contain = refContain\<rparr>"

section \<open>Notions of the specification\<close>

text \<open>An event that the time filter of the callback skips.\<close>

definition timeFiltered :: "Config \<Rightarrow> BinlogEvent \<Rightarrow> bool" where
  "timeFiltered cfg e \<longleftrightarrow> beforeStart cfg e \<or> afterEnd cfg e"

definition isGTIDEvent :: "BinlogEvent \<Rightarrow> bool" where
  "isGTIDEvent e = (case Event e of GTIDEvent sid gno \<Rightarrow> True | _ \<Rightarrow> False)"

text \<open>The GTID string of a GTID event whose server id has its 16 bytes.\<close>

definition eventGTID :: "BinlogEvent \<Rightarrow> string option" where
  "eventGTID e =
     (case Event e of
        GTIDEvent sid gno \<Rightarrow>
          (case uuidStr sid of Panic \<Rightarrow> None | Ret uuid \<Rightarrow> Some (gtidStr uuid gno))
      | _ \<Rightarrow> None)"

text \<open>A GTID event whose GTID the library parses and the target set contains.\<close>

definition inTarget :: "'g GTIDLib \<Rightarrow> 'g \<Rightarrow> BinlogEvent \<Rightarrow> bool" where
  "inTarget lib targetGTID e =
     (case eventGTID e of
        None \<Rightarrow> False
      | Some g \<Rightarrow>
          (case ParseMysqlGTIDSet lib g of
             Inl err \<Rightarrow> False
           | Inr c \<Rightarrow> Contain lib targetGTID c))"

text \<open>A GTID event whose GTID the library parses and the target set does not contain.\<close>

definition outsideTarget :: "'g GTIDLib \<Rightarrow> 'g \<Rightarrow> BinlogEvent \<Rightarrow> bool" where
  "outsideTarget lib targetGTID e =
     (case eventGTID e of
        None \<Rightarrow> False
      | Some g \<Rightarrow>
          (case ParseMysqlGTIDSet lib g of
             Inl err \<Rightarrow> False
           | Inr c \<Rightarrow> \<not> Contain lib targetGTID c))"

text \<open>The database filter lets a transaction of database \<open>db\<close> through.\<close>

definition databaseAccepted :: "Config \<Rightarrow> string \<Rightarrow> bool" where
  "databaseAccepted cfg db \<longleftrightarrow> FilterDatabase cfg = [] \<or> db = FilterDatabase cfg"

text \<open>
  An event that opens an in-flight transaction when the current database is \<open>db\<close>: a
  GTID event of the target set that passes the time filter and the database filter.
\<close>

definition opensTransaction :: "'g GTIDLib \<Rightarrow> Config \<Rightarrow> 'g \<Rightarrow> string \<Rightarrow> BinlogEvent \<Rightarrow> bool" where
  "opensTransaction lib cfg targetGTID db e \<longleftrightarrow>
     \<not> timeFiltered cfg e \<and> inTarget lib targetGTID e \<and> databaseAccepted cfg db"

text \<open>An event that commits an in-flight transaction: a commit that passes the time filter.\<close>

definition commitsTransaction :: "Config \<Rightarrow> BinlogEvent \<Rightarrow> bool" where
  "commitsTransaction cfg e \<longleftrightarrow> \<not> timeFiltered cfg e \<and> isCommit e"

text \<open>
  The next-transaction boundary: a GTID event outside the target set that passes the
  time filter.
\<close>

definition boundaryEvent :: "'g GTIDLib \<Rightarrow> Config \<Rightarrow> 'g \<Rightarrow> BinlogEvent \<Rightarrow> bool" where
  "boundaryEvent lib cfg targetGTID e \<longleftrightarrow> \<not> timeFiltered cfg e \<and> outsideTarget lib targetGTID e"

text \<open>A searcher over one mock file that holds the given entries.\<close>

definition fileSearcher :: "Config \<Rightarrow> item list \<Rightarrow> Searcher" where
  "fileSearcher cfg items = \<lparr>config = cfg, parserFactory = Mock \<lparr>events = items, forcedError = None\<rparr>\<rparr>"

text \<open>The scan of the entries of a file from a state of the callback.\<close>

definition scan :: "'g GTIDLib \<Rightarrow> Config \<Rightarrow> string \<Rightarrow> 'g \<Rightarrow> item list \<Rightarrow> ScanState \<Rightarrow> (string option \<times> ScanState) go" where
  "scan lib cfg filepath targetGTID items st = runEvents (onEvent lib cfg filepath targetGTID) items st"

section \<open>Concrete inputs\<close>

definition sidU :: "byte list" where
  "sidU = [0x3e, 0x11, 0xfa, 0x47, 0x71, 0xca, 0x11, 0xe1, 0x9e, 0x33, 0xc8, 0x0a, 0xa9, 0x42, 0x95, 0x62]"

definition uuidU :: string where
  "uuidU = ''3e11fa47-71ca-11e1-9e33-c80aa9429562''"

text \<open>The target set \<^verbatim>\<open>U:1-100\<close> of the tests.\<close>

definition targetU :: RefGTIDSet where
  "targetU = [(uuidU, [(1, 100)])]"

definition mkEvent :: "u32 \<Rightarrow> u32 \<Rightarrow> u32 \<Rightarrow> Event \<Rightarrow> BinlogEvent" where
  "mkEvent ts pos sz ev = \<lparr>Header = \<lparr>EvTimestamp = ts, LogPos = pos, EventSize = sz\<rparr>, Event = ev\<rparr>"

definition plainConfig :: Config where
  "plainConfig = \<lparr>FilterDatabase = [], StartTime = None, EndTime = None,
     StartFile = ''mysql-bin.000001'', Parallel = 1\<rparr>"

text \<open>While the scan runs, no record it holds has a next GTID.\<close>

definition nextUnset :: "ScanState \<Rightarrow> bool" where
  "nextUnset st \<longleftrightarrow>
     (case result st of None \<Rightarrow> True | Some r \<Rightarrow> NextGTID r = []) \<and>
     (case currentTransaction st of None \<Rightarrow> True | Some t \<Rightarrow> NextGTID t = [])"

text \<open>
  Events of a file: a transaction of the target set, a statement of it, its commit, a later
  transaction of the target set, and a later transaction outside the target set.
\<close>

definition txn50 :: BinlogEvent where
  "txn50 = mkEvent 5 1000 100 (GTIDEvent sidU 50)"

definition insertQuery :: BinlogEvent where
  "insertQuery = mkEvent 5 1500 500 (QueryEvent ''shop'' ''INSERT INTO t VALUES (1)'')"

definition xid2000 :: BinlogEvent where
  "xid2000 = mkEvent 6 2000 100 XIDEvent"

definition txn60 :: BinlogEvent where
  "txn60 = mkEvent 7 2100 100 (GTIDEvent sidU 60)"

definition txn200 :: BinlogEvent where
  "txn200 = mkEvent 7 2100 100 (GTIDEvent sidU 200)"

text \<open>The match that the scan holds after \<open>txn50\<close> and \<open>xid2000\<close>.\<close>

definition match50 :: GTIDPosition where
  "match50 = \<lparr>BinlogFile = ''mysql-bin.000001'', Position = 900, CommitPosition = 2000,
     ResumePosition = 2000, Timestamp = 6, GTID = ''3e11fa47-71ca-11e1-9e33-c80aa9429562:50'',
     ServerUUID = ''3e11fa47-71ca-11e1-9e33-c80aa9429562'', GNO = 50, Database = [], NextGTID = []\<rparr>"

text \<open>A GTID event of the target set whose size exceeds its end offset, and a commit.\<close>

definition wrapOpen :: BinlogEvent where
  "wrapOpen = mkEvent 5 100 200 (GTIDEvent sidU 50)"

definition xid300 :: BinlogEvent where
  "xid300 = mkEvent 6 300 100 XIDEvent"

text \<open>A statement after the commit, and a transaction outside the target set before the match.\<close>

definition useQuery :: BinlogEvent where
  "useQuery = mkEvent 7 2050 50 (QueryEvent ''shop'' ''BEGIN'')"

definition txn200early :: BinlogEvent where
  "txn200early = mkEvent 4 500 100 (GTIDEvent sidU 200)"

text \<open>A previous-GTIDs event.\<close>

definition isPreviousGTIDs :: "BinlogEvent \<Rightarrow> bool" where
  "isPreviousGTIDs e = (case Event e of PreviousGTIDsEvent gtidSets \<Rightarrow> True | _ \<Rightarrow> False)"

text \<open>The mock file that a parser reads under a name.\<close>

definition fileOf :: "BinlogParser \<Rightarrow> string \<Rightarrow> MockBinlogParser option" where
  "fileOf p name = (case p of Mock m \<Rightarrow> Some m | SmartMock files \<Rightarrow> map_of files name)"

text \<open>
  A file whose header holds the given previous GTIDs, after the format description and
  before a first transaction; and the three files of the test of the selector.
\<close>

definition headerFile :: "string \<Rightarrow> MockBinlogParser" where
  "headerFile gtidSets =
     \<lparr>events = [ItemEv (mkEvent 1 124 120 OtherEvent),
                ItemEv (mkEvent 1 195 71 (PreviousGTIDsEvent gtidSets)),
                ItemEv (mkEvent 2 260 65 (GTIDEvent sidU 0))],
      forcedError = None\<rparr>"

definition threeFiles :: Searcher where
  "threeFiles =
     \<lparr>config = plainConfig,
      parserFactory = SmartMock
        [(''bin.001'', headerFile ''3e11fa47-71ca-11e1-9e33-c80aa9429562:1-50''),
         (''bin.002'', headerFile ''3e11fa47-71ca-11e1-9e33-c80aa9429562:1-80''),
         (''bin.003'', headerFile ''3e11fa47-71ca-11e1-9e33-c80aa9429562:1-120'')]\<rparr>"

text \<open>A configuration with an end time, and a commit whose timestamp exceeds it.\<close>

definition endConfig :: Config where
  "endConfig = plainConfig\<lparr>EndTime := Some 100\<rparr>"

definition lateXid :: BinlogEvent where
  "lateXid = mkEvent 200 3000 100 XIDEvent"

text \<open>A remote searcher over a connection that delivers the given results.\<close>

definition remoteSearcher :: "Config \<Rightarrow> getEvent list \<Rightarrow> RemoteSearcher" where
  "remoteSearcher cfg evs = \<lparr>remoteConfig = cfg, syncer = \<lparr>startSyncError = None, stream = evs\<rparr>\<rparr>"

text \<open>The events among the entries of a file, and among the results of a connection.\<close>

fun eventsOf :: "item list \<Rightarrow> BinlogEvent list" where
  "eventsOf [] = []"
| "eventsOf (ItemEv e # items) = e # eventsOf items"
| "eventsOf (ItemErr err # items) = eventsOf items"

fun gotEvents :: "getEvent list \<Rightarrow> BinlogEvent list" where
  "gotEvents [] = []"
| "gotEvents (Got e # evs) = e # gotEvents evs"
| "gotEvents (DeadlineExceeded # evs) = gotEvents evs"
| "gotEvents (GetError err # evs) = gotEvents evs"

text \<open>
  The end offsets do not decrease along the events, and no event is larger than its end
  offset: what holds within one binlog file below 4 GiB.
\<close>

definition offsetsOrdered :: "BinlogEvent list \<Rightarrow> bool" where
  "offsetsOrdered es \<longleftrightarrow>
     sorted_wrt (\<lambda>x y. LogPos (Header x) \<le> LogPos (Header y)) es \<and>
     list_all (\<lambda>e. EventSize (Header e) \<le> LogPos (Header e)) es"

text \<open>The ordering of the three positions of a match, and the same below a bound.\<close>

definition ordered :: "GTIDPosition \<Rightarrow> bool" where
  "ordered r \<longleftrightarrow> Position r \<le> CommitPosition r \<and> CommitPosition r \<le> ResumePosition r"

definition within :: "u32 \<Rightarrow> GTIDPosition option \<Rightarrow> bool" where
  "within m p = (case p of None \<Rightarrow> True | Some r \<Rightarrow> ordered r \<and> ResumePosition r \<le> m)"

text \<open>
  A transaction that starts just below offset \<open>2 ^ 32\<close> and a commit whose end offset has
  wrapped around; a rotation to the next file and a transaction outside the target set
  near the start of that file.
\<close>

definition txnNearEnd :: BinlogEvent where
  "txnNearEnd = mkEvent 5 4294967000 65 (GTIDEvent sidU 50)"

definition xidWrapped :: BinlogEvent where
  "xidWrapped = mkEvent 6 200 31 XIDEvent"

definition rotateToNext :: BinlogEvent where
  "rotateToNext = mkEvent 6 0 47 (RotateEvent ''mysql-bin.000002'')"

definition txn200next :: BinlogEvent where
  "txn200next = mkEvent 7 300 65 (GTIDEvent sidU 200)"

text \<open>
  The committed matches observed in one scan, after the rules of the specification: a GTID
  event of the target set that passes the filters opens the in-flight transaction, a
  commit completes it, a GTID event outside the target set discards it, or ends the scan
  when a match has been found. The in-flight transaction that a GTID event opens:
\<close>

definition openedBy :: "string \<Rightarrow> string \<Rightarrow> BinlogEvent \<Rightarrow> GTIDPosition option" where
  "openedBy filepath db e =
     (case Event e of
        GTIDEvent sid gno \<Rightarrow>
          (case uuidStr sid of
             Panic \<Rightarrow> None
           | Ret uuid \<Rightarrow> Some (newTransaction filepath e (gtidStr uuid gno) uuid gno db))
      | _ \<Rightarrow> None)"

text \<open>The in-flight transaction \<open>t\<close> once the event \<open>e\<close> has committed it.\<close>

definition committedAt :: "BinlogEvent \<Rightarrow> GTIDPosition \<Rightarrow> GTIDPosition" where
  "committedAt e t = t\<lparr>CommitPosition := LogPos (Header e), ResumePosition := LogPos (Header e),
                        Timestamp := EvTimestamp (Header e)\<rparr>"

text \<open>
  The list of the committed matches, in the order of their commits. Its arguments are the
  current database, the in-flight transaction and whether a match has been found.
\<close>

fun observedCommits :: "'g GTIDLib \<Rightarrow> Config \<Rightarrow> string \<Rightarrow> 'g \<Rightarrow> string \<Rightarrow> GTIDPosition option \<Rightarrow> bool \<Rightarrow> BinlogEvent list \<Rightarrow> GTIDPosition list" where
  "observedCommits lib cfg filepath targetGTID db inFlight found [] = []"
| "observedCommits lib cfg filepath targetGTID db inFlight found (e # es) =
     (if timeFiltered cfg e then observedCommits lib cfg filepath targetGTID db inFlight found es
      else if inTarget lib targetGTID e then
        (if databaseAccepted cfg db
         then observedCommits lib cfg filepath targetGTID db (openedBy filepath db e) found es
         else observedCommits lib cfg filepath targetGTID db None found es)
      else if outsideTarget lib targetGTID e then
        (if found then [] else observedCommits lib cfg filepath targetGTID db None found es)
      else if isGTIDEvent e then observedCommits lib cfg filepath targetGTID db inFlight found es
      else
        (case inFlight of
           Some t \<Rightarrow>
             if isCommit e
             then committedAt e t # observedCommits lib cfg filepath targetGTID (trackDatabase db e) None True es
             else observedCommits lib cfg filepath targetGTID (trackDatabase db e) inFlight found es
         | None \<Rightarrow> observedCommits lib cfg filepath targetGTID (trackDatabase db e) None found es))"

text \<open>
  The record \<open>r\<close> is the match \<open>m\<close>, but for the next GTID and the resume position that
  the next-transaction boundary has set.
\<close>

definition sameMatch :: "GTIDPosition \<Rightarrow> GTIDPosition \<Rightarrow> bool" where
  "sameMatch m r \<longleftrightarrow> r\<lparr>NextGTID := NextGTID m, ResumePosition := ResumePosition m\<rparr> = m"

definition sameResult :: "GTIDPosition option \<Rightarrow> GTIDPosition option \<Rightarrow> bool" where
  "sameResult b res =
     (case b of
        None \<Rightarrow> res = None
      | Some m \<Rightarrow> (case res of None \<Rightarrow> False | Some r \<Rightarrow> sameMatch m r))"

text \<open>A later transaction of the target set with a lower number, and its commit.\<close>

definition txn10 :: BinlogEvent where
  "txn10 = mkEvent 8 2200 100 (GTIDEvent sidU 10)"

definition commit2600 :: BinlogEvent where
  "commit2600 = mkEvent 8 2600 100 (QueryEvent [] ''COMMIT'')"

text \<open>The match that the scan of file \<open>i\<close> yields, if any.\<close>

definition matchOf :: "'g GTIDLib \<Rightarrow> Searcher \<Rightarrow> string list \<Rightarrow> 'g \<Rightarrow> nat \<Rightarrow> GTIDPosition option" where
  "matchOf lib s files targetGTID i =
     (case searchBinlogFile lib s (files ! i) targetGTID of
        Ret (Some r, None) \<Rightarrow> Some r
      | _ \<Rightarrow> None)"

text \<open>
  What holds in every state of a run when file \<open>k\<close> alone holds a match \<open>r\<close>: no other
  goroutine has published, the context is cancelled only once goroutine \<open>k\<close> has
  returned, and the channel holds \<open>r\<close> from the moment goroutine \<open>k\<close> has published.
\<close>

definition soloInv :: "nat \<Rightarrow> GTIDPosition \<Rightarrow> Coordinator \<Rightarrow> bool" where
  "soloInv k r c \<longleftrightarrow>
     (\<forall>i<length (pcs c). i \<noteq> k \<longrightarrow> pcs c ! i \<noteq> Published) \<and>
     (cancelled c \<longrightarrow> pcs c ! k = Finished) \<and>
     resultChan c = (if pcs c ! k = Published \<or> pcs c ! k = Finished then [r] else [])"

text \<open>
  Two files that each hold a match: transaction 50 in the first, transaction 60 in the
  second.
\<close>

definition txn60commit :: BinlogEvent where
  "txn60commit = mkEvent 8 2600 100 XIDEvent"

definition twoMatches :: Searcher where
  "twoMatches =
     \<lparr>config = plainConfig,
      parserFactory = SmartMock
        [(''mysql-bin.000001'', \<lparr>events = [ItemEv txn50, ItemEv xid2000], forcedError = None\<rparr>),
         (''mysql-bin.000002'', \<lparr>events = [ItemEv txn60, ItemEv txn60commit], forcedError = None\<rparr>)]\<rparr>"

text \<open>The match that the scan holds has its resume position at its commit position.\<close>

definition resumeIsCommit :: "ScanState \<Rightarrow> bool" where
  "resumeIsCommit st = (case result st of None \<Rightarrow> True | Some r \<Rightarrow> ResumePosition r = CommitPosition r)"

section \<open>Properties of the provider and of the callback\<close>

lemma runEvents_append:
  "runEvents f (xs @ ys) s =
     (case runEvents f xs s of
        Panic \<Rightarrow> Panic
      | Ret (Some err, s') \<Rightarrow> Ret (Some err, s')
      | Ret (None, s') \<Rightarrow> runEvents f ys s')"
proof (induction xs arbitrary: s)
  case Nil
  show ?case by simp
next
  case (Cons x xs)
  show ?case
  proof (cases x)
    case (ItemErr err)
    then show ?thesis by simp
  next
    case (ItemEv ev)
    then show ?thesis using Cons.IH
      by (simp split: go.splits prod.splits option.splits)
  qed
qed

lemma scan_append_running:
  "scan lib cfg fp tgt xs s = Ret (None, s') \<Longrightarrow>
   scan lib cfg fp tgt (xs @ ys) s = scan lib cfg fp tgt ys s'"
  by (simp add: scan_def runEvents_append)

lemma scan_Nil: "scan lib cfg fp tgt [] s = Ret (None, s)"
  by (simp add: scan_def)

lemma scan_event:
  "scan lib cfg fp tgt (ItemEv e # xs) s =
     (case onEvent lib cfg fp tgt s e of
        Panic \<Rightarrow> Panic
      | Ret (Some err, s') \<Rightarrow> Ret (Some err, s')
      | Ret (None, s') \<Rightarrow> scan lib cfg fp tgt xs s')"
  unfolding scan_def by simp

lemma scan_error: "scan lib cfg fp tgt (ItemErr err # xs) s = Ret (Some err, s)"
  by (simp add: scan_def)

lemma searchBinlogFile_fileSearcher:
  "searchBinlogFile lib (fileSearcher cfg items) fp tgt =
     (case scan lib cfg fp tgt items initialState of
        Panic \<Rightarrow> Panic
      | Ret (err, st) \<Rightarrow>
          (case err of
             Some msg \<Rightarrow>
               if msg \<noteq> ''found_next_gtid'' then Ret (None, Some msg) else Ret (result st, None)
           | None \<Rightarrow> Ret (result st, None)))"
  by (simp add: searchBinlogFile_def fileSearcher_def scan_def MockParseFile_def)

lemma onEvent_filtered:
  "timeFiltered cfg e \<Longrightarrow> onEvent lib cfg fp tgt st e = Ret (None, st)"
  by (auto simp: onEvent_def timeFiltered_def)

lemma onEvent_opens:
  assumes "opensTransaction lib cfg tgt (currentDatabase st) e"
  shows "\<exists>t. onEvent lib cfg fp tgt st e = Ret (None, st\<lparr>currentTransaction := Some t\<rparr>) \<and>
             Position t = LogPos (Header e) - EventSize (Header e) \<and>
             CommitPosition t = LogPos (Header e) \<and> ResumePosition t = LogPos (Header e) \<and>
             Some (GTID t) = eventGTID e \<and> NextGTID t = [] \<and> BinlogFile t = fp \<and>
             Database t = currentDatabase st"
  using assms
  by (auto simp: opensTransaction_def timeFiltered_def inTarget_def eventGTID_def onEvent_def
      checkGTID_def trackDatabase_def databaseAccepted_def newTransaction_def
      trackTransactionEnd_def isCommit_def
      split: Event.splits go.splits option.splits sum.splits)

lemma onEvent_boundary:
  assumes "boundaryEvent lib cfg tgt e" and "result st = Some r" and "NextGTID r = []"
  shows "\<exists>g. eventGTID e = Some g \<and>
     onEvent lib cfg fp tgt st e =
       Ret (Some ''found_next_gtid'',
            st\<lparr>result := Some (r\<lparr>NextGTID := g, ResumePosition := LogPos (Header e)\<rparr>)\<rparr>)"
  using assms
  by (auto simp: boundaryEvent_def timeFiltered_def outsideTarget_def eventGTID_def onEvent_def
      checkGTID_def trackDatabase_def
      split: Event.splits go.splits option.splits sum.splits)

lemma nextUnset_database [simp]: "nextUnset (st\<lparr>currentDatabase := db\<rparr>) = nextUnset st"
  by (simp add: nextUnset_def)

lemma checkGTID_nextUnset:
  assumes "checkGTID lib cfg fp tgt st e = Ret fl" and "nextUnset st"
  shows "(fl = Fallthrough st' \<or> fl = Return None st') \<longrightarrow> nextUnset st'"
proof (cases "Event e")
  case (GTIDEvent sid gno)
  with assms show ?thesis
    by (auto simp: checkGTID_def nextUnset_def newTransaction_def
        split: go.splits sum.splits if_splits option.splits)
qed (use assms in \<open>auto simp: checkGTID_def\<close>)

lemma trackTransactionEnd_nextUnset:
  "nextUnset st \<Longrightarrow> nextUnset (trackTransactionEnd st e)"
  by (auto simp: trackTransactionEnd_def commitTransaction_def nextUnset_def Let_def
      split: option.splits)

lemma onEvent_nextUnset:
  assumes "onEvent lib cfg fp tgt st e = Ret (None, st')" and "nextUnset st"
  shows "nextUnset st'"
proof (cases "beforeStart cfg e \<or> afterEnd cfg e")
  case True
  with assms show ?thesis by (auto simp: onEvent_def split: if_splits)
next
  case False
  let ?s = "st\<lparr>currentDatabase := trackDatabase (currentDatabase st) e\<rparr>"
  have n: "nextUnset ?s" using assms(2) by simp
  from False assms(1) obtain fl where fl: "checkGTID lib cfg fp tgt ?s e = Ret fl"
    by (auto simp: onEvent_def split: go.splits)
  show ?thesis
  proof (cases fl)
    case (Return err s1)
    with fl False assms(1) have "err = None" "s1 = st'" by (auto simp: onEvent_def)
    with checkGTID_nextUnset [OF fl n, of st'] Return show ?thesis by simp
  next
    case (Fallthrough s1)
    with fl False assms(1) have st': "st' = trackTransactionEnd s1 e" by (auto simp: onEvent_def)
    from checkGTID_nextUnset [OF fl n, of s1] Fallthrough have "nextUnset s1" by simp
    then show ?thesis unfolding st' by (rule trackTransactionEnd_nextUnset)
  qed
qed

lemma onEvent_result_kept:
  assumes "onEvent lib cfg fp tgt st e = Ret (None, st')" and "result st \<noteq> None"
  shows "result st' \<noteq> None"
  using assms
  by (auto simp: onEvent_def checkGTID_def trackTransactionEnd_def
      commitTransaction_def Let_def
      split: if_splits Event.splits go.splits option.splits sum.splits flow.splits)

lemma scan_nextUnset:
  "scan lib cfg fp tgt items st = Ret (None, st') \<Longrightarrow> nextUnset st \<Longrightarrow> nextUnset st'"
proof (induction items arbitrary: st)
  case Nil
  then show ?case by (simp add: scan_Nil)
next
  case (Cons x xs)
  show ?case
  proof (cases x)
    case (ItemErr err)
    with Cons.prems show ?thesis by (simp add: scan_error)
  next
    case (ItemEv e)
    with Cons.prems obtain s1 where s1: "onEvent lib cfg fp tgt st e = Ret (None, s1)"
      and rest: "scan lib cfg fp tgt xs s1 = Ret (None, st')"
      by (auto simp: scan_event split: go.splits prod.splits option.splits)
    from onEvent_nextUnset [OF s1 Cons.prems(2)] Cons.IH [OF rest] show ?thesis by simp
  qed
qed

lemma scan_result_kept:
  "scan lib cfg fp tgt items st = Ret (None, st') \<Longrightarrow> result st \<noteq> None \<Longrightarrow> result st' \<noteq> None"
proof (induction items arbitrary: st)
  case Nil
  then show ?case by (simp add: scan_Nil)
next
  case (Cons x xs)
  show ?case
  proof (cases x)
    case (ItemErr err)
    with Cons.prems show ?thesis by (simp add: scan_error)
  next
    case (ItemEv e)
    with Cons.prems obtain s1 where s1: "onEvent lib cfg fp tgt st e = Ret (None, s1)"
      and rest: "scan lib cfg fp tgt xs s1 = Ret (None, st')"
      by (auto simp: scan_event split: go.splits prod.splits option.splits)
    from onEvent_result_kept [OF s1 Cons.prems(2)] Cons.IH [OF rest] show ?thesis by simp
  qed
qed

text \<open>An event that is no GTID event keeps an open transaction open, or commits it.\<close>

lemma onEvent_other:
  assumes "\<not> isGTIDEvent e"
  shows "\<exists>st'. onEvent lib cfg fp tgt st e = Ret (None, st') \<and>
     (currentTransaction st \<noteq> None \<longrightarrow> currentTransaction st' \<noteq> None \<or> result st' \<noteq> None) \<and>
     (result st \<noteq> None \<longrightarrow> result st' \<noteq> None)"
  using assms
  by (auto simp: onEvent_def checkGTID_def trackTransactionEnd_def isGTIDEvent_def
      commitTransaction_def Let_def
      split: if_splits Event.splits go.splits option.splits sum.splits flow.splits)

lemma onEvent_commits:
  assumes "commitsTransaction cfg e" and "currentTransaction st \<noteq> None \<or> result st \<noteq> None"
  shows "\<exists>st'. onEvent lib cfg fp tgt st e = Ret (None, st') \<and> result st' \<noteq> None"
  using assms
  by (auto simp: onEvent_def checkGTID_def trackTransactionEnd_def commitsTransaction_def
      timeFiltered_def isCommit_def commitTransaction_def Let_def
      split: if_splits Event.splits go.splits option.splits sum.splits flow.splits)

lemma scan_until_commit:
  assumes "\<forall>x\<in>set b. \<not> isGTIDEvent x" and "commitsTransaction cfg c"
    and "currentTransaction st \<noteq> None \<or> result st \<noteq> None"
  shows "\<exists>st'. scan lib cfg fp tgt (map ItemEv b @ [ItemEv c]) st = Ret (None, st') \<and> result st' \<noteq> None"
  using assms
proof (induction b arbitrary: st)
  case Nil
  from onEvent_commits [OF Nil(2) Nil(3), of lib fp tgt] show ?case
    by (auto simp: scan_event scan_Nil)
next
  case (Cons x xs)
  from Cons.prems(1) have nx: "\<not> isGTIDEvent x" by simp
  from onEvent_other [OF nx, of lib cfg fp tgt st] Cons.prems(3)
  obtain s1 where s1: "onEvent lib cfg fp tgt st x = Ret (None, s1)"
    and p1: "currentTransaction s1 \<noteq> None \<or> result s1 \<noteq> None"
    by blast
  from Cons.prems(1) have "\<forall>y\<in>set xs. \<not> isGTIDEvent y" by simp
  from Cons.IH [OF this Cons.prems(2) p1] s1 show ?case
    by (simp add: scan_event)
qed

section \<open>The next-transaction boundary\<close>

text \<open>
  Claim C1, as amended. A file holds a transaction of the target set that commits: after a
  part \<open>a\<close> that the scan gets through, a GTID event \<open>g\<close> of the target set that passes the
  time and database filters, events \<open>b\<close> that are no GTID events, and a commit \<open>c\<close>. The
  scan gets through the further entries \<open>d\<close> without stopping. Then comes a GTID event \<open>e\<close>
  outside the target set that passes the time filter. Whatever follows (\<open>rest\<close>), the scan
  stops at \<open>e\<close>: \<^verbatim>\<open>searchBinlogFile\<close> returns a match with no error, its resume position
  is the end offset of \<open>e\<close> and its next GTID is the GTID string of \<open>e\<close>.
\<close>

theorem resume_at_next_gtid:
  assumes prefix: "scan lib cfg fp tgt (a @ ItemEv g # map ItemEv b @ ItemEv c # d) initialState = Ret (None, st)"
    and before: "scan lib cfg fp tgt a initialState = Ret (None, st0)"
    and opens: "opensTransaction lib cfg tgt (currentDatabase st0) g"
    and between: "\<forall>x\<in>set b. \<not> isGTIDEvent x"
    and commits: "commitsTransaction cfg c"
    and boundary: "boundaryEvent lib cfg tgt e"
  shows "\<exists>r. searchBinlogFile lib
               (fileSearcher cfg (a @ ItemEv g # map ItemEv b @ ItemEv c # d @ ItemEv e # rest)) fp tgt
             = Ret (Some r, None) \<and>
             ResumePosition r = LogPos (Header e) \<and> Some (NextGTID r) = eventGTID e"
proof -
  from onEvent_opens [OF opens, of fp] obtain t where
    g: "onEvent lib cfg fp tgt st0 g = Ret (None, st0\<lparr>currentTransaction := Some t\<rparr>)"
    by blast
  let ?s1 = "st0\<lparr>currentTransaction := Some t\<rparr>"
  have "currentTransaction ?s1 \<noteq> None \<or> result ?s1 \<noteq> None" by simp
  from scan_until_commit [OF between commits this, of lib fp tgt] obtain s2 where
    s2: "scan lib cfg fp tgt (map ItemEv b @ [ItemEv c]) ?s1 = Ret (None, s2)"
    and r2: "result s2 \<noteq> None" by blast
  have upto: "scan lib cfg fp tgt (a @ ItemEv g # map ItemEv b @ [ItemEv c]) initialState = Ret (None, s2)"
    using before g s2 by (simp add: scan_append_running scan_event)
  have "scan lib cfg fp tgt ((a @ ItemEv g # map ItemEv b @ [ItemEv c]) @ d) initialState = Ret (None, st)"
    using prefix by simp
  then have d: "scan lib cfg fp tgt d s2 = Ret (None, st)"
    by (simp only: scan_append_running [OF upto])
  from scan_result_kept [OF d r2] obtain r where r: "result st = Some r" by blast
  have "nextUnset initialState" by (simp add: nextUnset_def initialState_def)
  from scan_nextUnset [OF prefix this] r have nr: "NextGTID r = []"
    by (simp add: nextUnset_def)
  from onEvent_boundary [OF boundary r nr, of fp] obtain gs where
    gs: "eventGTID e = Some gs"
    and stop: "onEvent lib cfg fp tgt st e = Ret (Some ''found_next_gtid'',
        st\<lparr>result := Some (r\<lparr>NextGTID := gs, ResumePosition := LogPos (Header e)\<rparr>)\<rparr>)"
    by blast
  have "scan lib cfg fp tgt ((a @ ItemEv g # map ItemEv b @ ItemEv c # d) @ ItemEv e # rest) initialState
      = Ret (Some ''found_next_gtid'',
          st\<lparr>result := Some (r\<lparr>NextGTID := gs, ResumePosition := LogPos (Header e)\<rparr>)\<rparr>)"
    by (simp only: scan_append_running [OF prefix]) (simp add: scan_event stop)
  then show ?thesis using gs
    by (simp add: searchBinlogFile_fileSearcher)
qed

text \<open>The theorem at a file of five events.\<close>

theorem resume_at_next_gtid_witness:
  "\<exists>r. searchBinlogFile refLib
          (fileSearcher plainConfig [ItemEv txn50, ItemEv insertQuery, ItemEv xid2000, ItemEv txn200, ItemEv txn60])
          ''mysql-bin.000001'' targetU = Ret (Some r, None) \<and>
        ResumePosition r = 2100 \<and> NextGTID r = ''3e11fa47-71ca-11e1-9e33-c80aa9429562:200''"
proof -
  have prefix: "scan refLib plainConfig ''mysql-bin.000001'' targetU
      ([] @ ItemEv txn50 # map ItemEv [insertQuery] @ ItemEv xid2000 # []) initialState
      = Ret (None, \<lparr>result = Some match50, currentDatabase = ''shop'', currentTransaction = None\<rparr>)"
    by code_simp
  have before: "scan refLib plainConfig ''mysql-bin.000001'' targetU [] initialState = Ret (None, initialState)"
    by (simp add: scan_def)
  have opens: "opensTransaction refLib plainConfig targetU (currentDatabase initialState) txn50"
    by code_simp
  have between: "\<forall>x\<in>set [insertQuery]. \<not> isGTIDEvent x"
    by code_simp
  have commits: "commitsTransaction plainConfig xid2000"
    by code_simp
  have boundary: "boundaryEvent refLib plainConfig targetU txn200"
    by code_simp
  have pos: "LogPos (Header txn200) = 2100"
    by code_simp
  have gtid: "eventGTID txn200 = Some ''3e11fa47-71ca-11e1-9e33-c80aa9429562:200''"
    by code_simp
  from resume_at_next_gtid [OF prefix before opens between commits boundary, of "[ItemEv txn60]"]
  show ?thesis by (simp add: pos gtid)
qed

text \<open>
  Claim C1 as stated fails when the later GTID event is itself of the target set: it opens
  a transaction, and the match keeps the resume position of its commit and no next GTID.
\<close>

theorem resume_at_any_later_gtid_counterexample:
  "opensTransaction refLib plainConfig targetU [] txn50 \<and> commitsTransaction plainConfig xid2000 \<and>
   isGTIDEvent txn60 \<and>
   (case searchBinlogFile refLib (fileSearcher plainConfig [ItemEv txn50, ItemEv xid2000, ItemEv txn60])
           ''mysql-bin.000001'' targetU of
      Ret (Some r, None) \<Rightarrow>
        ResumePosition r \<noteq> LogPos (Header txn60) \<and> Some (NextGTID r) \<noteq> eventGTID txn60
    | _ \<Rightarrow> False)"
  by code_simp

section \<open>The start position\<close>

lemma remoteStep_opens:
  assumes "opensTransaction lib cfg tgt (rCurrentDatabase st) e"
  shows "\<exists>t. remoteStep lib cfg tgt st e = Ret (Continue (st\<lparr>rCurrentTransaction := Some t\<rparr>)) \<and>
             Position t = LogPos (Header e) - EventSize (Header e) \<and>
             CommitPosition t = LogPos (Header e) \<and> ResumePosition t = LogPos (Header e) \<and>
             Some (GTID t) = eventGTID e \<and> NextGTID t = [] \<and> BinlogFile t = startFile st"
  using assms
  by (auto simp: opensTransaction_def timeFiltered_def inTarget_def eventGTID_def remoteStep_def
      remoteCheckGTID_def trackDatabase_def databaseAccepted_def newTransaction_def
      remoteTransactionEnd_def handleRotation_def isCommit_def Let_def
      split: Event.splits go.splits option.splits sum.splits)

lemma u32_sub_unat:
  "unat ((a::u32) - b) = (2 ^ 32 + unat a - unat b) mod 2 ^ 32"
proof -
  have a: "unat a < 2 ^ 32" and b: "unat b < 2 ^ 32"
    using unsigned_less [of a] unsigned_less [of b] by simp_all
  show ?thesis
  proof (cases "unat b \<le> unat a")
    case True
    then have "2 ^ 32 + unat a - unat b = (unat a - unat b) + 2 ^ 32" by simp
    then have "(2 ^ 32 + unat a - unat b) mod 2 ^ 32 = (unat a - unat b) mod 2 ^ 32"
      by (simp only: mod_add_self2)
    also have "\<dots> = unat a - unat b" using a by simp
    finally show ?thesis using True by (simp add: unat_sub_if_size)
  next
    case False
    then have "2 ^ 32 + unat a - unat b < 2 ^ 32" using b by simp
    then show ?thesis using False by (simp add: unat_sub_if_size size_word.rep_eq)
  qed
qed

lemma u32_sub_wraps:
  assumes "(a::u32) < b"
  shows "a < a - b"
proof -
  from assms have "\<not> b \<le> a" by simp
  then have "\<not> a - b \<le> a" by (simp add: word_sub_le_iff)
  then show ?thesis by simp
qed

text \<open>
  Claim C10. A GTID event that opens an in-flight transaction, in the file scan and in the
  remote loop, records as start position the end offset minus the event size in unsigned
  32-bit arithmetic: the difference modulo \<open>2 ^ 32\<close>. When the event size exceeds the end
  offset the difference wraps around and the start position is greater than the commit
  position; there is a file for which \<^verbatim>\<open>searchBinlogFile\<close> returns such a match.
\<close>

theorem start_position_wraps:
  "(opensTransaction lib cfg tgt (currentDatabase st) e \<longrightarrow>
      (\<exists>t. onEvent lib cfg fp tgt st e = Ret (None, st\<lparr>currentTransaction := Some t\<rparr>) \<and>
           Position t = LogPos (Header e) - EventSize (Header e) \<and>
           unat (Position t) = (2 ^ 32 + unat (LogPos (Header e)) - unat (EventSize (Header e))) mod 2 ^ 32 \<and>
           CommitPosition t = LogPos (Header e) \<and>
           (LogPos (Header e) < EventSize (Header e) \<longrightarrow> CommitPosition t < Position t))) \<and>
   (opensTransaction lib cfg tgt (rCurrentDatabase rst) e \<longrightarrow>
      (\<exists>t. remoteStep lib cfg tgt rst e = Ret (Continue (rst\<lparr>rCurrentTransaction := Some t\<rparr>)) \<and>
           Position t = LogPos (Header e) - EventSize (Header e) \<and>
           unat (Position t) = (2 ^ 32 + unat (LogPos (Header e)) - unat (EventSize (Header e))) mod 2 ^ 32 \<and>
           CommitPosition t = LogPos (Header e) \<and>
           (LogPos (Header e) < EventSize (Header e) \<longrightarrow> CommitPosition t < Position t))) \<and>
   (\<exists>items r. searchBinlogFile refLib (fileSearcher plainConfig items) ''mysql-bin.000001'' targetU
        = Ret (Some r, None) \<and> CommitPosition r < Position r)"
proof (intro conjI impI)
  assume "opensTransaction lib cfg tgt (currentDatabase st) e"
  from onEvent_opens [OF this, of fp] obtain t where
    t: "onEvent lib cfg fp tgt st e = Ret (None, st\<lparr>currentTransaction := Some t\<rparr>)"
      "Position t = LogPos (Header e) - EventSize (Header e)" "CommitPosition t = LogPos (Header e)"
    by blast
  then show "\<exists>t. onEvent lib cfg fp tgt st e = Ret (None, st\<lparr>currentTransaction := Some t\<rparr>) \<and>
           Position t = LogPos (Header e) - EventSize (Header e) \<and>
           unat (Position t) = (2 ^ 32 + unat (LogPos (Header e)) - unat (EventSize (Header e))) mod 2 ^ 32 \<and>
           CommitPosition t = LogPos (Header e) \<and>
           (LogPos (Header e) < EventSize (Header e) \<longrightarrow> CommitPosition t < Position t)"
    using u32_sub_unat [of "LogPos (Header e)" "EventSize (Header e)"]
      u32_sub_wraps [of "LogPos (Header e)" "EventSize (Header e)"]
    by (intro exI [of _ t]) simp
next
  assume "opensTransaction lib cfg tgt (rCurrentDatabase rst) e"
  from remoteStep_opens [OF this] obtain t where
    t: "remoteStep lib cfg tgt rst e = Ret (Continue (rst\<lparr>rCurrentTransaction := Some t\<rparr>))"
      "Position t = LogPos (Header e) - EventSize (Header e)" "CommitPosition t = LogPos (Header e)"
    by blast
  then show "\<exists>t. remoteStep lib cfg tgt rst e = Ret (Continue (rst\<lparr>rCurrentTransaction := Some t\<rparr>)) \<and>
           Position t = LogPos (Header e) - EventSize (Header e) \<and>
           unat (Position t) = (2 ^ 32 + unat (LogPos (Header e)) - unat (EventSize (Header e))) mod 2 ^ 32 \<and>
           CommitPosition t = LogPos (Header e) \<and>
           (LogPos (Header e) < EventSize (Header e) \<longrightarrow> CommitPosition t < Position t)"
    using u32_sub_unat [of "LogPos (Header e)" "EventSize (Header e)"]
      u32_sub_wraps [of "LogPos (Header e)" "EventSize (Header e)"]
    by (intro exI [of _ t]) simp
next
  have "searchBinlogFile refLib (fileSearcher plainConfig [ItemEv wrapOpen, ItemEv xid300])
          ''mysql-bin.000001'' targetU
        = Ret (Some (match50\<lparr>Position := 4294967196, CommitPosition := 300, ResumePosition := 300\<rparr>), None)"
    by code_simp
  moreover have "CommitPosition (match50\<lparr>Position := 4294967196, CommitPosition := 300, ResumePosition := 300\<rparr>)
      < Position (match50\<lparr>Position := 4294967196, CommitPosition := 300, ResumePosition := 300\<rparr>)"
    by simp
  ultimately show "\<exists>items r. searchBinlogFile refLib (fileSearcher plainConfig items) ''mysql-bin.000001'' targetU
        = Ret (Some r, None) \<and> CommitPosition r < Position r"
    by blast
qed

text \<open>The theorem at an event of size 200 that ends at offset 100.\<close>

theorem start_position_wraps_witness:
  "(\<exists>t. onEvent refLib plainConfig ''mysql-bin.000001'' targetU initialState wrapOpen
          = Ret (None, initialState\<lparr>currentTransaction := Some t\<rparr>) \<and>
        unat (Position t) = 4294967196 \<and> CommitPosition t = 100 \<and> CommitPosition t < Position t) \<and>
   (\<exists>t. remoteStep refLib plainConfig targetU (remoteInitialState plainConfig) wrapOpen
          = Ret (Continue ((remoteInitialState plainConfig)\<lparr>rCurrentTransaction := Some t\<rparr>)) \<and>
        unat (Position t) = 4294967196 \<and> CommitPosition t = 100 \<and> CommitPosition t < Position t)"
proof -
  have o1: "opensTransaction refLib plainConfig targetU (currentDatabase initialState) wrapOpen"
    by code_simp
  have o2: "opensTransaction refLib plainConfig targetU (rCurrentDatabase (remoteInitialState plainConfig)) wrapOpen"
    by code_simp
  have lp: "LogPos (Header wrapOpen) = 100" and es: "EventSize (Header wrapOpen) = 200"
    by code_simp+
  from start_position_wraps [of refLib plainConfig targetU initialState wrapOpen
      "''mysql-bin.000001''" "remoteInitialState plainConfig"] o1 o2
  show ?thesis by (simp add: lp es) blast
qed

section \<open>A single match\<close>

lemma scan_append:
  "scan lib cfg fp tgt (xs @ ys) s =
     (case scan lib cfg fp tgt xs s of
        Panic \<Rightarrow> Panic
      | Ret (Some err, s') \<Rightarrow> Ret (Some err, s')
      | Ret (None, s') \<Rightarrow> scan lib cfg fp tgt ys s')"
  unfolding scan_def by (rule runEvents_append)

lemma onEvent_no_target:
  assumes "\<not> inTarget lib tgt e" and "onEvent lib cfg fp tgt st e = Ret (None, st')"
    and "result st = None" and "currentTransaction st = None"
  shows "result st' = None \<and> currentTransaction st' = None"
  using assms
  by (auto simp: onEvent_def checkGTID_def inTarget_def eventGTID_def trackTransactionEnd_def
      split: if_splits Event.splits go.splits option.splits sum.splits flow.splits)

lemma scan_no_target:
  "\<forall>x\<in>set a. \<not> inTarget lib tgt x \<Longrightarrow> scan lib cfg fp tgt (map ItemEv a) st = Ret (None, st') \<Longrightarrow>
   result st = None \<Longrightarrow> currentTransaction st = None \<Longrightarrow>
   result st' = None \<and> currentTransaction st' = None"
proof (induction a arbitrary: st)
  case Nil
  then show ?case by (simp add: scan_Nil)
next
  case (Cons x xs)
  from Cons.prems(2) obtain s1 where s1: "onEvent lib cfg fp tgt st x = Ret (None, s1)"
    and rest: "scan lib cfg fp tgt (map ItemEv xs) s1 = Ret (None, st')"
    by (auto simp: scan_event split: go.splits prod.splits option.splits)
  from Cons.prems(1) have nx: "\<not> inTarget lib tgt x" and nxs: "\<forall>y\<in>set xs. \<not> inTarget lib tgt y"
    by simp_all
  from onEvent_no_target [OF nx s1 Cons.prems(3) Cons.prems(4)]
  have "result s1 = None" "currentTransaction s1 = None" by simp_all
  from Cons.IH [OF nxs rest this] show ?case .
qed

lemma onEvent_idle:
  assumes "\<not> isGTIDEvent x" and "currentTransaction st = None \<or> \<not> commitsTransaction cfg x"
  shows "\<exists>db. onEvent lib cfg fp tgt st x = Ret (None, st\<lparr>currentDatabase := db\<rparr>)"
proof (cases "timeFiltered cfg x")
  case True
  then have "onEvent lib cfg fp tgt st x = Ret (None, st\<lparr>currentDatabase := currentDatabase st\<rparr>)"
    by (simp add: onEvent_filtered)
  then show ?thesis by blast
next
  case False
  with assms have "onEvent lib cfg fp tgt st x
      = Ret (None, st\<lparr>currentDatabase := trackDatabase (currentDatabase st) x\<rparr>)"
    by (auto simp: onEvent_def checkGTID_def isGTIDEvent_def timeFiltered_def commitsTransaction_def
        trackTransactionEnd_def split: Event.splits option.splits)
  then show ?thesis by blast
qed

lemma scan_idle:
  assumes "\<forall>x\<in>set xs. \<not> isGTIDEvent x \<and> (currentTransaction st = None \<or> \<not> commitsTransaction cfg x)"
  shows "\<exists>db. scan lib cfg fp tgt (map ItemEv xs) st = Ret (None, st\<lparr>currentDatabase := db\<rparr>)"
  using assms
proof (induction xs arbitrary: st)
  case Nil
  have "scan lib cfg fp tgt (map ItemEv []) st = Ret (None, st\<lparr>currentDatabase := currentDatabase st\<rparr>)"
    by (simp add: scan_Nil)
  then show ?case by blast
next
  case (Cons x xs)
  from Cons.prems have x: "\<not> isGTIDEvent x" "currentTransaction st = None \<or> \<not> commitsTransaction cfg x"
    by simp_all
  from onEvent_idle [OF x, of lib fp tgt] obtain db where
    db: "onEvent lib cfg fp tgt st x = Ret (None, st\<lparr>currentDatabase := db\<rparr>)" by blast
  let ?s = "st\<lparr>currentDatabase := db\<rparr>"
  from Cons.prems have
    "\<forall>y\<in>set xs. \<not> isGTIDEvent y \<and> (currentTransaction ?s = None \<or> \<not> commitsTransaction cfg y)"
    by simp
  from Cons.IH [OF this] obtain db' where
    "scan lib cfg fp tgt (map ItemEv xs) ?s = Ret (None, ?s\<lparr>currentDatabase := db'\<rparr>)" by blast
  with db have "scan lib cfg fp tgt (map ItemEv (x # xs)) st = Ret (None, st\<lparr>currentDatabase := db'\<rparr>)"
    by (simp add: scan_event)
  then show ?case by blast
qed

lemma onEvent_first_commit:
  assumes "commitsTransaction cfg c" and "currentTransaction st = Some t" and "result st = None"
  shows "\<exists>db. onEvent lib cfg fp tgt st c =
     Ret (None, st\<lparr>currentDatabase := db,
                   result := Some (t\<lparr>CommitPosition := LogPos (Header c),
                                     ResumePosition := LogPos (Header c),
                                     Timestamp := EvTimestamp (Header c)\<rparr>),
                   currentTransaction := None\<rparr>)"
  using assms
  by (auto simp: onEvent_def checkGTID_def commitsTransaction_def timeFiltered_def isCommit_def
      trackTransactionEnd_def commitTransaction_def Let_def
      split: Event.splits)

lemma single_match_shape:
  assumes before: "scan lib cfg fp tgt (map ItemEv a) initialState = Ret (None, st0)"
    and none_before: "\<forall>x\<in>set a. \<not> inTarget lib tgt x"
    and opens: "opensTransaction lib cfg tgt (currentDatabase st0) g"
    and between: "\<forall>x\<in>set b. \<not> isGTIDEvent x \<and> \<not> commitsTransaction cfg x"
    and commits: "commitsTransaction cfg c"
    and after: "\<forall>x\<in>set d. \<not> isGTIDEvent x"
  shows "\<exists>r. searchBinlogFile lib (fileSearcher cfg (map ItemEv (a @ g # b @ c # d))) fp tgt
               = Ret (Some r, None) \<and>
             ResumePosition r = CommitPosition r \<and> NextGTID r = [] \<and>
             CommitPosition r = LogPos (Header c) \<and> Some (GTID r) = eventGTID g"
proof -
  have "result initialState = None" "currentTransaction initialState = None"
    by (simp_all add: initialState_def)
  from scan_no_target [OF none_before before this]
  have r0: "result st0 = None" and c0: "currentTransaction st0 = None" by simp_all
  from onEvent_opens [OF opens, of fp] obtain t where
    g: "onEvent lib cfg fp tgt st0 g = Ret (None, st0\<lparr>currentTransaction := Some t\<rparr>)"
    and t: "Some (GTID t) = eventGTID g" "NextGTID t = []"
    by blast
  let ?s1 = "st0\<lparr>currentTransaction := Some t\<rparr>"
  from between have "\<forall>x\<in>set b. \<not> isGTIDEvent x \<and> (currentTransaction ?s1 = None \<or> \<not> commitsTransaction cfg x)"
    by simp
  from scan_idle [OF this, where lib = lib and fp = fp and tgt = tgt] obtain db where
    b: "scan lib cfg fp tgt (map ItemEv b) ?s1 = Ret (None, ?s1\<lparr>currentDatabase := db\<rparr>)" by blast
  let ?s2 = "?s1\<lparr>currentDatabase := db\<rparr>"
  let ?r = "t\<lparr>CommitPosition := LogPos (Header c), ResumePosition := LogPos (Header c),
               Timestamp := EvTimestamp (Header c)\<rparr>"
  have "currentTransaction ?s2 = Some t" "result ?s2 = None" using r0 by simp_all
  from onEvent_first_commit [OF commits this, of lib fp tgt] obtain db' where
    c: "onEvent lib cfg fp tgt ?s2 c =
        Ret (None, ?s2\<lparr>currentDatabase := db', result := Some ?r, currentTransaction := None\<rparr>)"
    by blast
  let ?s3 = "?s2\<lparr>currentDatabase := db', result := Some ?r, currentTransaction := None\<rparr>"
  from after have "\<forall>x\<in>set d. \<not> isGTIDEvent x \<and> (currentTransaction ?s3 = None \<or> \<not> commitsTransaction cfg x)"
    by simp
  from scan_idle [OF this, where lib = lib and fp = fp and tgt = tgt] obtain db'' where
    d: "scan lib cfg fp tgt (map ItemEv d) ?s3 = Ret (None, ?s3\<lparr>currentDatabase := db''\<rparr>)" by blast
  have "scan lib cfg fp tgt (map ItemEv a @ ItemEv g # map ItemEv b @ ItemEv c # map ItemEv d) initialState
      = Ret (None, ?s3\<lparr>currentDatabase := db''\<rparr>)"
    using before g b c d by (simp add: scan_append scan_event)
  then show ?thesis using t
    by (simp add: searchBinlogFile_fileSearcher)
qed


section \<open>Early termination and errors\<close>

lemma gtidStr_not_empty: "gtidStr uuid gno \<noteq> []"
  by (simp add: gtidStr_def)

lemma onEvent_error:
  assumes "onEvent lib cfg fp tgt st e = Ret (Some err, st')"
  shows "err = ''found_next_gtid'' \<and>
         (\<exists>r. result st' = Some r \<and> Some (NextGTID r) = eventGTID e \<and> NextGTID r \<noteq> [] \<and>
              ResumePosition r = LogPos (Header e))"
proof (cases "Event e")
  case (GTIDEvent sid gno)
  with assms show ?thesis
    by (auto simp: onEvent_def checkGTID_def eventGTID_def gtidStr_not_empty
        split: if_splits go.splits sum.splits option.splits)
qed (use assms in \<open>auto simp: onEvent_def checkGTID_def split: if_splits\<close>)

text \<open>
  Claim C8. Let the scan have got through the entries \<open>pre\<close> of a file. If the callback
  returns an error at the next event, that error is the signal \<^verbatim>\<open>found_next_gtid\<close>, and
  \<^verbatim>\<open>searchBinlogFile\<close> returns the completed match (with the next GTID and the resume
  position of that event) and no error. If the provider instead yields an error of its own
  with another message, at the next entry or as a forced error, \<^verbatim>\<open>searchBinlogFile\<close>
  returns that error and no match.
\<close>

theorem early_termination_is_no_error:
  assumes "scan lib cfg fp tgt pre initialState = Ret (None, st)"
  shows "(onEvent lib cfg fp tgt st e = Ret (Some sig, st') \<longrightarrow>
            sig = ''found_next_gtid'' \<and>
            (\<exists>r. searchBinlogFile lib (fileSearcher cfg (pre @ ItemEv e # rest)) fp tgt = Ret (Some r, None) \<and>
                 result st' = Some r \<and> Some (NextGTID r) = eventGTID e \<and> NextGTID r \<noteq> [] \<and>
                 ResumePosition r = LogPos (Header e))) \<and>
         (err \<noteq> ''found_next_gtid'' \<longrightarrow>
            searchBinlogFile lib (fileSearcher cfg (pre @ ItemErr err # rest)) fp tgt = Ret (None, Some err) \<and>
            searchBinlogFile lib \<lparr>config = cfg, parserFactory = Mock \<lparr>events = items, forcedError = Some err\<rparr>\<rparr> fp tgt
              = Ret (None, Some err))"
proof (intro conjI impI)
  assume stop: "onEvent lib cfg fp tgt st e = Ret (Some sig, st')"
  from onEvent_error [OF stop] show "sig = ''found_next_gtid''" by simp
  from onEvent_error [OF stop] obtain r where
    r: "result st' = Some r" "Some (NextGTID r) = eventGTID e" "NextGTID r \<noteq> []"
      "ResumePosition r = LogPos (Header e)" and sig: "sig = ''found_next_gtid''"
    by blast
  have "scan lib cfg fp tgt (pre @ ItemEv e # rest) initialState = Ret (Some ''found_next_gtid'', st')"
    using assms stop sig by (simp add: scan_append scan_event)
  then have "searchBinlogFile lib (fileSearcher cfg (pre @ ItemEv e # rest)) fp tgt = Ret (Some r, None)"
    using r(1) by (simp add: searchBinlogFile_fileSearcher)
  with r show "\<exists>r. searchBinlogFile lib (fileSearcher cfg (pre @ ItemEv e # rest)) fp tgt = Ret (Some r, None) \<and>
                 result st' = Some r \<and> Some (NextGTID r) = eventGTID e \<and> NextGTID r \<noteq> [] \<and>
                 ResumePosition r = LogPos (Header e)"
    by blast
next
  assume err: "err \<noteq> ''found_next_gtid''"
  have "scan lib cfg fp tgt (pre @ ItemErr err # rest) initialState = Ret (Some err, st)"
    using assms by (simp add: scan_append scan_error)
  then show "searchBinlogFile lib (fileSearcher cfg (pre @ ItemErr err # rest)) fp tgt = Ret (None, Some err)"
    using err by (simp add: searchBinlogFile_fileSearcher)
next
  assume err: "err \<noteq> ''found_next_gtid''"
  then show "searchBinlogFile lib \<lparr>config = cfg, parserFactory = Mock \<lparr>events = items, forcedError = Some err\<rparr>\<rparr> fp tgt
              = Ret (None, Some err)"
    by (simp add: searchBinlogFile_def MockParseFile_def)
qed

text \<open>The theorem at a file with a match, a next GTID and a read error.\<close>

theorem early_termination_is_no_error_witness:
  "searchBinlogFile refLib (fileSearcher plainConfig ([ItemEv txn50, ItemEv xid2000] @ ItemEv txn200 # [ItemErr ''read error'']))
      ''mysql-bin.000001'' targetU
     = Ret (Some (match50\<lparr>NextGTID := ''3e11fa47-71ca-11e1-9e33-c80aa9429562:200'', ResumePosition := 2100\<rparr>), None) \<and>
   searchBinlogFile refLib (fileSearcher plainConfig ([ItemEv txn50, ItemEv xid2000] @ ItemErr ''read error'' # [ItemErr ''read error'']))
      ''mysql-bin.000001'' targetU
     = Ret (None, Some ''read error'') \<and>
   searchBinlogFile refLib \<lparr>config = plainConfig,
        parserFactory = Mock \<lparr>events = [ItemEv txn50, ItemEv xid2000], forcedError = Some ''read error''\<rparr>\<rparr>
      ''mysql-bin.000001'' targetU
     = Ret (None, Some ''read error'')"
proof -
  let ?st = "\<lparr>result = Some match50, currentDatabase = [], currentTransaction = None\<rparr>"
  let ?st' = "\<lparr>result = Some (match50\<lparr>NextGTID := ''3e11fa47-71ca-11e1-9e33-c80aa9429562:200'', ResumePosition := 2100\<rparr>),
               currentDatabase = [], currentTransaction = None\<rparr>"
  have pre: "scan refLib plainConfig ''mysql-bin.000001'' targetU [ItemEv txn50, ItemEv xid2000] initialState
      = Ret (None, ?st)"
    by code_simp
  have stop: "onEvent refLib plainConfig ''mysql-bin.000001'' targetU ?st txn200 = Ret (Some ''found_next_gtid'', ?st')"
    by code_simp
  have err: "''read error'' \<noteq> ''found_next_gtid''"
    by simp
  from early_termination_is_no_error [OF pre, of txn200 "''found_next_gtid''" ?st' "[ItemErr ''read error'']"
      "''read error''" "[ItemEv txn50, ItemEv xid2000]"] stop err
  show ?thesis by simp
qed

section \<open>The binary search over file headers\<close>

declare sortSearchLoop.simps [simp del]

lemma sortSearchLoop_threshold:
  "i \<le> idx \<Longrightarrow> idx \<le> j \<Longrightarrow> j \<le> n \<Longrightarrow> \<forall>k<idx. \<not> f k \<Longrightarrow> \<forall>k. idx \<le> k \<and> k < n \<longrightarrow> f k \<Longrightarrow>
   sortSearchLoop f i j = idx"
proof (induction f i j rule: sortSearchLoop.induct)
  case (1 f i j)
  show ?case
  proof (cases "i < j")
    case False
    with "1.prems" have "i = idx" by simp
    with False show ?thesis by (subst sortSearchLoop.simps) simp
  next
    case True
    let ?h = "(i + j) div 2"
    from True have h: "i \<le> ?h" "?h < j" by simp_all
    show ?thesis
    proof (cases "f ?h")
      case fh: True
      have "idx \<le> ?h"
      proof (rule ccontr)
        assume "\<not> idx \<le> ?h"
        then have "?h < idx" by simp
        with "1.prems"(4) fh show False by blast
      qed
      with "1.IH"(2) [OF True refl _ "1.prems"(1)] fh h "1.prems" True
      have "sortSearchLoop f i ?h = idx" by simp
      with True fh show ?thesis by (subst sortSearchLoop.simps) (simp add: Let_def)
    next
      case nfh: False
      have "?h < idx"
      proof (rule ccontr)
        assume "\<not> ?h < idx"
        then have "idx \<le> ?h" by simp
        moreover from h "1.prems"(3) have "?h < n" by simp
        ultimately show False using "1.prems"(5) nfh by blast
      qed
      then have "?h + 1 \<le> idx" by simp
      with "1.IH"(1) [OF True refl nfh] "1.prems"
      have "sortSearchLoop f (?h + 1) j = idx" by simp
      with True nfh show ?thesis by (subst sortSearchLoop.simps) (simp add: Let_def)
    qed
  qed
qed

lemma sortSearch_threshold:
  assumes "idx \<le> n" and "\<forall>k<idx. \<not> f k" and "\<forall>k. idx \<le> k \<and> k < n \<longrightarrow> f k"
  shows "sortSearch n f = idx"
  unfolding sortSearch_def using assms by (intro sortSearchLoop_threshold [where n = n]) simp_all

text \<open>
  Claim C6. Let the predicate of the files' headers be monotonic over a non-empty list of
  files, and let \<open>idx\<close> be the smallest index at which it holds, or the number of files when
  it holds nowhere. Then \<^verbatim>\<open>FindStartFileUsingHeaders\<close> returns the first file when \<open>idx\<close> is
  0, the last file when \<open>idx\<close> is the number of files, and the file at \<open>idx - 1\<close> otherwise.
  For the target \<^verbatim>\<open>U:1-100\<close> and files with the headers \<^verbatim>\<open>U:1-50\<close>, \<^verbatim>\<open>U:1-80\<close>, \<^verbatim>\<open>U:1-120\<close>
  it returns the second file.
\<close>

theorem FindStartFile_selects:
  "(files \<noteq> [] \<and>
    (\<forall>i j. i \<le> j \<and> j < length files \<and> headerSkips lib s files tgt i \<longrightarrow> headerSkips lib s files tgt j) \<and>
    idx \<le> length files \<and> (\<forall>k<idx. \<not> headerSkips lib s files tgt k) \<and>
    (idx < length files \<longrightarrow> headerSkips lib s files tgt idx) \<longrightarrow>
      FindStartFileUsingHeaders lib s files tgt =
        (if idx = 0 then (files ! 0, None)
         else if idx = length files then (files ! (length files - 1), None)
         else (files ! (idx - 1), None))) \<and>
   FindStartFileUsingHeaders refLib threeFiles [''bin.001'', ''bin.002'', ''bin.003''] targetU
     = (''bin.002'', None)"
proof (intro conjI impI)
  assume a: "files \<noteq> [] \<and>
    (\<forall>i j. i \<le> j \<and> j < length files \<and> headerSkips lib s files tgt i \<longrightarrow> headerSkips lib s files tgt j) \<and>
    idx \<le> length files \<and> (\<forall>k<idx. \<not> headerSkips lib s files tgt k) \<and>
    (idx < length files \<longrightarrow> headerSkips lib s files tgt idx)"
  then have above: "\<forall>k. idx \<le> k \<and> k < length files \<longrightarrow> headerSkips lib s files tgt k"
    by (metis le_less_trans)
  from a have "idx \<le> length files" "\<forall>k<idx. \<not> headerSkips lib s files tgt k" by simp_all
  from sortSearch_threshold [OF this above]
  have "sortSearch (length files) (headerSkips lib s files tgt) = idx" .
  with a show "FindStartFileUsingHeaders lib s files tgt =
        (if idx = 0 then (files ! 0, None)
         else if idx = length files then (files ! (length files - 1), None)
         else (files ! (idx - 1), None))"
    by (simp add: FindStartFileUsingHeaders_def)
next
  show "FindStartFileUsingHeaders refLib threeFiles [''bin.001'', ''bin.002'', ''bin.003''] targetU
     = (''bin.002'', None)"
    by code_simp
qed


text \<open>
  The theorem at the three files, for the targets \<^verbatim>\<open>U:1-100\<close> (index 2), \<^verbatim>\<open>U:1-30\<close>
  (index 0) and \<^verbatim>\<open>U:1-130\<close> (index 3).
\<close>

theorem FindStartFile_selects_witness:
  "FindStartFileUsingHeaders refLib threeFiles [''bin.001'', ''bin.002'', ''bin.003''] targetU
     = (''bin.002'', None) \<and>
   FindStartFileUsingHeaders refLib threeFiles [''bin.001'', ''bin.002'', ''bin.003''] [(uuidU, [(1, 30)])]
     = (''bin.001'', None) \<and>
   FindStartFileUsingHeaders refLib threeFiles [''bin.001'', ''bin.002'', ''bin.003''] [(uuidU, [(1, 130)])]
     = (''bin.003'', None)"
proof -
  let ?fs = "[''bin.001'', ''bin.002'', ''bin.003'']"
  let ?P = "headerSkips refLib threeFiles ?fs targetU"
  let ?Q = "headerSkips refLib threeFiles ?fs [(uuidU, [(1, 30)])]"
  let ?R = "headerSkips refLib threeFiles ?fs [(uuidU, [(1, 130)])]"
  have three: "\<And>k. k < Suc (Suc (Suc 0)) \<longleftrightarrow> k = 0 \<or> k = Suc 0 \<or> k = Suc (Suc 0)"
    by auto
  have two: "\<And>k. k < Suc (Suc 0) \<longleftrightarrow> k = 0 \<or> k = Suc 0"
    by auto
  have p: "\<not> ?P 0" "\<not> ?P (Suc 0)" "?P (Suc (Suc 0))"
    by code_simp+
  have q: "?Q 0" "?Q (Suc 0)" "?Q (Suc (Suc 0))"
    by code_simp+
  have r: "\<not> ?R 0" "\<not> ?R (Suc 0)" "\<not> ?R (Suc (Suc 0))"
    by code_simp+
  have hp: "?fs \<noteq> [] \<and> (\<forall>i j. i \<le> j \<and> j < length ?fs \<and> ?P i \<longrightarrow> ?P j) \<and>
      Suc (Suc 0) \<le> length ?fs \<and> (\<forall>k<Suc (Suc 0). \<not> ?P k) \<and> (Suc (Suc 0) < length ?fs \<longrightarrow> ?P (Suc (Suc 0)))"
    using p by (auto simp: three two le_Suc_eq)
  have hq: "?fs \<noteq> [] \<and> (\<forall>i j. i \<le> j \<and> j < length ?fs \<and> ?Q i \<longrightarrow> ?Q j) \<and>
      0 \<le> length ?fs \<and> (\<forall>k<0. \<not> ?Q k) \<and> (0 < length ?fs \<longrightarrow> ?Q 0)"
    using q by (auto simp: three le_Suc_eq)
  have hr: "?fs \<noteq> [] \<and> (\<forall>i j. i \<le> j \<and> j < length ?fs \<and> ?R i \<longrightarrow> ?R j) \<and>
      Suc (Suc (Suc 0)) \<le> length ?fs \<and> (\<forall>k<Suc (Suc (Suc 0)). \<not> ?R k) \<and>
      (Suc (Suc (Suc 0)) < length ?fs \<longrightarrow> ?R (Suc (Suc (Suc 0))))"
    using r by (auto simp: three le_Suc_eq)
  from FindStartFile_selects [of ?fs refLib threeFiles targetU "Suc (Suc 0)", THEN conjunct1, THEN mp, OF hp]
  have a: "FindStartFileUsingHeaders refLib threeFiles ?fs targetU = (''bin.002'', None)"
    by simp
  from FindStartFile_selects [of ?fs refLib threeFiles "[(uuidU, [(1, 30)])]" 0, THEN conjunct1, THEN mp, OF hq]
  have b: "FindStartFileUsingHeaders refLib threeFiles ?fs [(uuidU, [(1, 30)])] = (''bin.001'', None)"
    by simp
  from FindStartFile_selects [of ?fs refLib threeFiles "[(uuidU, [(1, 130)])]" "Suc (Suc (Suc 0))", THEN conjunct1, THEN mp, OF hr]
  have c: "FindStartFileUsingHeaders refLib threeFiles ?fs [(uuidU, [(1, 130)])] = (''bin.003'', None)"
    by simp
  from a b c show ?thesis by simp
qed

section \<open>The header probe\<close>

lemma ParseFile_fileOf:
  "fileOf p name = Some m \<Longrightarrow> ParseFile p name f st = MockParseFile m f st"
  by (cases p) (simp_all add: fileOf_def)

lemma onHeaderEvent_other:
  "\<not> isPreviousGTIDs e \<Longrightarrow> onHeaderEvent lib st e = Ret (None, st)"
  by (auto simp: onHeaderEvent_def isPreviousGTIDs_def split: Event.splits)

lemma runEvents_no_header:
  "\<forall>x\<in>set es. \<not> isPreviousGTIDs x \<Longrightarrow>
   runEvents (onHeaderEvent lib) (map ItemEv es @ rest) st = runEvents (onHeaderEvent lib) rest st"
  by (induction es) (simp_all add: onHeaderEvent_other)

lemma CheckPreviousGTIDs_returns:
  "\<exists>b err. CheckPreviousGTIDs lib s name tgt = Ret (b, err)"
proof -
  have step: "\<And>st e. onHeaderEvent lib st e \<noteq> Panic"
    by (auto simp: onHeaderEvent_def split: Event.splits sum.splits)
  have run: "\<And>items (st :: 'a HeaderState). runEvents (onHeaderEvent lib) items st \<noteq> Panic"
  proof -
    fix items and st :: "'a HeaderState"
    show "runEvents (onHeaderEvent lib) items st \<noteq> Panic"
    proof (induction items arbitrary: st)
      case Nil
      show ?case by simp
    next
      case (Cons x xs)
      show ?case
      proof (cases x)
        case (ItemErr err)
        then show ?thesis by simp
      next
        case (ItemEv e)
        with Cons.IH step [of st e] show ?thesis
          by (auto split: go.splits prod.splits option.splits)
      qed
    qed
  qed
  have "ParseFile (parserFactory s) name (onHeaderEvent lib) \<lparr>previousGTIDs = None, foundHeader = False\<rparr> \<noteq> Panic"
    using run by (cases "parserFactory s") (auto simp: MockParseFile_def split: option.splits)
  then show ?thesis
    by (auto simp: CheckPreviousGTIDs_def split: go.splits prod.splits option.splits)
qed

text \<open>
  Claim C9. For a candidate file \<open>files ! i\<close>: when the probe returns an error, the
  predicate of the binary search is false at \<open>i\<close>; when the file holds no previous-GTIDs
  event, the probe returns false with no error and the predicate is false; and when the
  first previous-GTIDs event of the file is \<open>e\<close>, the probe's answer is decided by \<open>e\<close>
  alone, whatever the entries \<open>rest\<close> after it are.
\<close>

theorem header_probe:
  "(CheckPreviousGTIDs lib s (files ! i) tgt = Ret (b, Some err) \<longrightarrow> \<not> headerSkips lib s files tgt i) \<and>
   (fileOf (parserFactory s) (files ! i) = Some \<lparr>events = map ItemEv es, forcedError = None\<rparr> \<and>
    (\<forall>x\<in>set es. \<not> isPreviousGTIDs x) \<longrightarrow>
      CheckPreviousGTIDs lib s (files ! i) tgt = Ret (False, None) \<and> \<not> headerSkips lib s files tgt i) \<and>
   (fileOf (parserFactory s) (files ! i) = Some \<lparr>events = map ItemEv pre @ ItemEv e # rest, forcedError = None\<rparr> \<and>
    (\<forall>x\<in>set pre. \<not> isPreviousGTIDs x) \<and> Event e = PreviousGTIDsEvent gtidSets \<longrightarrow>
      CheckPreviousGTIDs lib s (files ! i) tgt =
        (case ParseMysqlGTIDSet lib gtidSets of
           Inl msg \<Rightarrow> Ret (False, Some (''failed to parse GTID set: '' @ msg))
         | Inr prev \<Rightarrow> Ret (Contain lib prev tgt, None)))"
proof (intro conjI impI)
  assume "CheckPreviousGTIDs lib s (files ! i) tgt = Ret (b, Some err)"
  then show "\<not> headerSkips lib s files tgt i"
    by (simp add: headerSkips_def)
next
  assume a: "fileOf (parserFactory s) (files ! i) = Some \<lparr>events = map ItemEv es, forcedError = None\<rparr> \<and>
    (\<forall>x\<in>set es. \<not> isPreviousGTIDs x)"
  then have "\<forall>x\<in>set es. \<not> isPreviousGTIDs x" by simp
  from runEvents_no_header [OF this, of lib "[]"]
  have "\<And>st. runEvents (onHeaderEvent lib) (map ItemEv es) st = Ret (None, st)" by simp
  with a have c: "CheckPreviousGTIDs lib s (files ! i) tgt = Ret (False, None)"
    by (simp add: CheckPreviousGTIDs_def ParseFile_fileOf MockParseFile_def)
  then show "CheckPreviousGTIDs lib s (files ! i) tgt = Ret (False, None)" .
  from c show "\<not> headerSkips lib s files tgt i"
    by (simp add: headerSkips_def)
next
  assume a: "fileOf (parserFactory s) (files ! i) = Some \<lparr>events = map ItemEv pre @ ItemEv e # rest, forcedError = None\<rparr> \<and>
    (\<forall>x\<in>set pre. \<not> isPreviousGTIDs x) \<and> Event e = PreviousGTIDsEvent gtidSets"
  then have "\<forall>x\<in>set pre. \<not> isPreviousGTIDs x" by simp
  from runEvents_no_header [OF this, of lib "ItemEv e # rest"]
  have "\<And>st. runEvents (onHeaderEvent lib) (map ItemEv pre @ ItemEv e # rest) st
      = runEvents (onHeaderEvent lib) (ItemEv e # rest) st" by simp
  with a show "CheckPreviousGTIDs lib s (files ! i) tgt =
        (case ParseMysqlGTIDSet lib gtidSets of
           Inl msg \<Rightarrow> Ret (False, Some (''failed to parse GTID set: '' @ msg))
         | Inr prev \<Rightarrow> Ret (Contain lib prev tgt, None))"
    by (simp add: CheckPreviousGTIDs_def ParseFile_fileOf MockParseFile_def onHeaderEvent_def
        split: sum.splits)
qed


text \<open>
  The theorem at a file that the parser does not know, at a file without a header event,
  and at the third of the three files.
\<close>

theorem header_probe_witness:
  "\<not> headerSkips refLib threeFiles [''bin.009''] targetU 0 \<and>
   CheckPreviousGTIDs refLib (fileSearcher plainConfig (map ItemEv [txn50, xid2000])) ''bin.001'' targetU
     = Ret (False, None) \<and>
   \<not> headerSkips refLib (fileSearcher plainConfig (map ItemEv [txn50, xid2000])) [''bin.001''] targetU 0 \<and>
   CheckPreviousGTIDs refLib threeFiles ''bin.003'' targetU = Ret (True, None)"
proof -
  let ?hdr = "mkEvent 1 195 71 (PreviousGTIDsEvent ''3e11fa47-71ca-11e1-9e33-c80aa9429562:1-120'')"
  have missing: "CheckPreviousGTIDs refLib threeFiles ([''bin.009''] ! 0) targetU
      = Ret (False, Some ''file not found in mock: bin.009'')"
    by code_simp
  have plain: "fileOf (parserFactory (fileSearcher plainConfig (map ItemEv [txn50, xid2000]))) ([''bin.001''] ! 0)
      = Some \<lparr>events = map ItemEv [txn50, xid2000], forcedError = None\<rparr> \<and>
      (\<forall>x\<in>set [txn50, xid2000]. \<not> isPreviousGTIDs x)"
    by code_simp
  have third: "fileOf (parserFactory threeFiles) ([''bin.003''] ! 0)
      = Some \<lparr>events = map ItemEv [mkEvent 1 124 120 OtherEvent] @ ItemEv ?hdr
                 # [ItemEv (mkEvent 2 260 65 (GTIDEvent sidU 0))], forcedError = None\<rparr> \<and>
      (\<forall>x\<in>set [mkEvent 1 124 120 OtherEvent]. \<not> isPreviousGTIDs x) \<and>
      Event ?hdr = PreviousGTIDsEvent ''3e11fa47-71ca-11e1-9e33-c80aa9429562:1-120''"
    by code_simp
  have parse: "ParseMysqlGTIDSet refLib ''3e11fa47-71ca-11e1-9e33-c80aa9429562:1-120'' = Inr [(uuidU, [(1, 120)])]"
    by code_simp
  have contain: "Contain refLib [(uuidU, [(1, 120)])] targetU"
    by code_simp
  from header_probe [THEN conjunct1, THEN mp, OF missing]
  have a: "\<not> headerSkips refLib threeFiles [''bin.009''] targetU 0" .
  from header_probe [THEN conjunct2, THEN conjunct1, THEN mp, OF plain]
  have b: "CheckPreviousGTIDs refLib (fileSearcher plainConfig (map ItemEv [txn50, xid2000])) ''bin.001'' targetU
      = Ret (False, None) \<and>
    \<not> headerSkips refLib (fileSearcher plainConfig (map ItemEv [txn50, xid2000])) [''bin.001''] targetU 0"
    by simp
  from header_probe [THEN conjunct2, THEN conjunct2, THEN mp, OF third, of refLib targetU]
  have c: "CheckPreviousGTIDs refLib threeFiles ''bin.003'' targetU = Ret (True, None)"
    using contain by (simp add: parse)
  from a b c show ?thesis by simp
qed

section \<open>The end-time bound\<close>

lemma remoteStep_afterEnd:
  "afterEnd cfg e \<Longrightarrow> \<not> beforeStart cfg e \<Longrightarrow> remoteStep lib cfg tgt st e = Ret (Stop (rResult st, None))"
  by (simp add: remoteStep_def)

lemma remoteLoop_end_time:
  assumes "afterEnd cfg e" and "\<not> beforeStart cfg e"
  shows "remoteLoop lib cfg tgt (map Got pre @ Got e # rest) st = remoteLoop lib cfg tgt (map Got pre) st"
proof (induction pre arbitrary: st)
  case Nil
  from assms show ?case by (simp add: remoteStep_afterEnd)
next
  case (Cons x xs)
  then show ?case by (simp split: go.splits loop.splits)
qed

lemma scan_skips_filtered:
  assumes "timeFiltered cfg e"
  shows "scan lib cfg fp tgt (pre @ ItemEv e # rest) st = scan lib cfg fp tgt (pre @ rest) st"
  by (simp add: scan_append scan_event onEvent_filtered [OF assms]
      split: go.splits prod.splits option.splits)

text \<open>
  Claim C5, as amended. Let the timestamp of \<open>e\<close> exceed the configured end-time bound
  (and not lie before the start-time bound). In the remote loop \<open>e\<close> ends the scan:
  \<^verbatim>\<open>Search\<close> returns what it returns when the stream ends before \<open>e\<close>, the match held so
  far and no error. In the file scan \<open>e\<close> is skipped and the scan goes on:
  \<^verbatim>\<open>searchBinlogFile\<close> returns what it returns on the file without \<open>e\<close>.
\<close>

theorem end_time_stops_remote_only:
  assumes "afterEnd cfg e" and "\<not> beforeStart cfg e"
  shows "Search lib (remoteSearcher cfg (map Got pre @ Got e # rest)) tgt
           = Search lib (remoteSearcher cfg (map Got pre)) tgt \<and>
         searchBinlogFile lib (fileSearcher cfg (items @ ItemEv e # tail)) fp tgt
           = searchBinlogFile lib (fileSearcher cfg (items @ tail)) fp tgt"
proof
  show "Search lib (remoteSearcher cfg (map Got pre @ Got e # rest)) tgt
           = Search lib (remoteSearcher cfg (map Got pre)) tgt"
    by (simp add: Search_def remoteSearcher_def remoteLoop_end_time [OF assms])
  from assms(1) have skipped: "timeFiltered cfg e" by (simp add: timeFiltered_def)
  show "searchBinlogFile lib (fileSearcher cfg (items @ ItemEv e # tail)) fp tgt
           = searchBinlogFile lib (fileSearcher cfg (items @ tail)) fp tgt"
    by (simp add: searchBinlogFile_fileSearcher scan_skips_filtered [OF skipped])
qed

text \<open>The theorem at a stream and at a file with a late commit.\<close>

theorem end_time_stops_remote_only_witness:
  "Search refLib (remoteSearcher endConfig (map Got [txn50, xid2000] @ Got lateXid # [Got txn200])) targetU
     = Ret (Some match50, None) \<and>
   searchBinlogFile refLib (fileSearcher endConfig ([ItemEv txn50] @ ItemEv lateXid # [ItemEv xid2000, ItemEv txn200]))
       ''mysql-bin.000001'' targetU
     = Ret (Some (match50\<lparr>NextGTID := ''3e11fa47-71ca-11e1-9e33-c80aa9429562:200'', ResumePosition := 2100\<rparr>), None)"
proof -
  have late: "afterEnd endConfig lateXid" "\<not> beforeStart endConfig lateXid"
    by code_simp+
  have remote: "Search refLib (remoteSearcher endConfig (map Got [txn50, xid2000])) targetU
      = Ret (Some match50, None)"
    by code_simp
  have local: "searchBinlogFile refLib (fileSearcher endConfig ([ItemEv txn50] @ [ItemEv xid2000, ItemEv txn200]))
       ''mysql-bin.000001'' targetU
     = Ret (Some (match50\<lparr>NextGTID := ''3e11fa47-71ca-11e1-9e33-c80aa9429562:200'', ResumePosition := 2100\<rparr>), None)"
    by code_simp
  from end_time_stops_remote_only [OF late, of refLib "[txn50, xid2000]" "[Got txn200]" targetU
      "[ItemEv txn50]" "[ItemEv xid2000, ItemEv txn200]" "''mysql-bin.000001''"]
  show ?thesis by (simp only: remote local)
qed

text \<open>
  Claim C5 as stated fails for the file scan: a file starts with an event after the end
  time. A scan that ended there would return what the empty file gives, no match; the scan
  goes on and returns the match that follows.
\<close>

theorem end_time_terminates_file_scan_counterexample:
  "afterEnd endConfig lateXid \<and>
   searchBinlogFile refLib (fileSearcher endConfig []) ''mysql-bin.000001'' targetU = Ret (None, None) \<and>
   searchBinlogFile refLib (fileSearcher endConfig ([] @ ItemEv lateXid # [ItemEv txn50, ItemEv xid2000]))
       ''mysql-bin.000001'' targetU
     = Ret (Some match50, None)"
  by code_simp

section \<open>The ordering of the positions\<close>

lemma within_mono: "within m p \<Longrightarrow> m \<le> m' \<Longrightarrow> within m' p"
  by (auto simp: within_def split: option.splits)

lemma within_None [simp]: "within m None"
  by (simp add: within_def)

lemma within_new:
  "EventSize (Header e) \<le> LogPos (Header e) \<Longrightarrow>
   within (LogPos (Header e)) (Some (newTransaction file e g uuid gno db))"
  by (simp add: within_def ordered_def newTransaction_def word_sub_le)

lemma within_commit:
  assumes "within m (Some t)" and "m \<le> LogPos (Header e)"
  shows "within (LogPos (Header e))
           (Some (t\<lparr>CommitPosition := LogPos (Header e), ResumePosition := LogPos (Header e),
                    Timestamp := ts\<rparr>))"
  using assms by (auto simp: within_def ordered_def)

lemma within_next:
  assumes "within m (Some r)" and "m \<le> LogPos (Header e)"
  shows "within (LogPos (Header e)) (Some (r\<lparr>NextGTID := g, ResumePosition := LogPos (Header e)\<rparr>))"
  using assms by (auto simp: within_def ordered_def)

lemma within_file:
  "within m (Some (t\<lparr>BinlogFile := f\<rparr>)) = within m (Some t)"
  by (simp add: within_def ordered_def)

lemma checkGTID_within:
  assumes "checkGTID lib cfg fp tgt st e = Ret fl"
    and "within m (result st)" and "within m (currentTransaction st)"
    and "m \<le> LogPos (Header e)" and "EventSize (Header e) \<le> LogPos (Header e)"
  shows "case fl of
           Return err st' \<Rightarrow> within (LogPos (Header e)) (result st') \<and>
                              within (LogPos (Header e)) (currentTransaction st')
         | Fallthrough st' \<Rightarrow> within (LogPos (Header e)) (result st') \<and>
                              within (LogPos (Header e)) (currentTransaction st')"
proof -
  note later = within_mono [OF assms(2) assms(4)] within_mono [OF assms(3) assms(4)]
  show ?thesis
  proof (cases "Event e")
    case (GTIDEvent sid gno)
    with assms later show ?thesis
      by (auto simp: checkGTID_def within_new within_next
          split: go.splits sum.splits if_splits option.splits)
  qed (use assms later in \<open>auto simp: checkGTID_def\<close>)
qed

lemma trackTransactionEnd_within:
  assumes "within m (result st)" and "within m (currentTransaction st)" and "m \<le> LogPos (Header e)"
  shows "within (LogPos (Header e)) (result (trackTransactionEnd st e)) \<and>
         within (LogPos (Header e)) (currentTransaction (trackTransactionEnd st e))"
  using assms within_mono [OF assms(1) assms(3)] within_mono [OF assms(2) assms(3)]
  by (auto simp: trackTransactionEnd_def commitTransaction_def Let_def within_commit
      split: option.splits)

lemma onEvent_within:
  assumes "onEvent lib cfg fp tgt st e = Ret (err, st')"
    and "within m (result st)" and "within m (currentTransaction st)"
    and "m \<le> LogPos (Header e)" and "EventSize (Header e) \<le> LogPos (Header e)"
  shows "within (LogPos (Header e)) (result st') \<and> within (LogPos (Header e)) (currentTransaction st')"
proof (cases "beforeStart cfg e \<or> afterEnd cfg e")
  case True
  with assms(1) have "st' = st" by (auto simp: onEvent_def split: if_splits)
  with assms show ?thesis by (auto intro: within_mono)
next
  case False
  let ?s = "st\<lparr>currentDatabase := trackDatabase (currentDatabase st) e\<rparr>"
  from False assms(1) obtain fl where fl: "checkGTID lib cfg fp tgt ?s e = Ret fl"
    by (auto simp: onEvent_def split: go.splits)
  have s: "within m (result ?s)" "within m (currentTransaction ?s)" using assms by simp_all
  note w = checkGTID_within [OF fl s assms(4) assms(5)]
  show ?thesis
  proof (cases fl)
    case (Return err1 s1)
    with fl False assms(1) have "s1 = st'" by (auto simp: onEvent_def)
    with w Return show ?thesis by simp
  next
    case (Fallthrough s1)
    with fl False assms(1) have st': "st' = trackTransactionEnd s1 e" by (auto simp: onEvent_def)
    from w Fallthrough have "within (LogPos (Header e)) (result s1)"
      "within (LogPos (Header e)) (currentTransaction s1)" by simp_all
    from trackTransactionEnd_within [OF this order_refl] show ?thesis unfolding st' .
  qed
qed

lemma scan_within:
  "scan lib cfg fp tgt items st = Ret (err, st') \<Longrightarrow> offsetsOrdered (eventsOf items) \<Longrightarrow>
   within m (result st) \<Longrightarrow> within m (currentTransaction st) \<Longrightarrow>
   \<forall>e\<in>set (eventsOf items). m \<le> LogPos (Header e) \<Longrightarrow>
   \<exists>m'. within m' (result st')"
proof (induction items arbitrary: st m)
  case Nil
  then show ?case by (auto simp: scan_Nil)
next
  case (Cons x xs)
  show ?case
  proof (cases x)
    case (ItemErr msg)
    with Cons.prems show ?thesis by (auto simp: scan_error)
  next
    case (ItemEv e)
    from Cons.prems(2) ItemEv have size: "EventSize (Header e) \<le> LogPos (Header e)"
      and later: "\<forall>y\<in>set (eventsOf xs). LogPos (Header e) \<le> LogPos (Header y)"
      and rest: "offsetsOrdered (eventsOf xs)"
      by (simp_all add: offsetsOrdered_def)
    from Cons.prems(5) ItemEv have m: "m \<le> LogPos (Header e)" by simp
    from Cons.prems(1) ItemEv obtain err1 s1 where
      s1: "onEvent lib cfg fp tgt st e = Ret (err1, s1)"
      by (auto simp: scan_event split: go.splits)
    note w = onEvent_within [OF s1 Cons.prems(3) Cons.prems(4) m size]
    show ?thesis
    proof (cases err1)
      case (Some msg)
      with Cons.prems(1) ItemEv s1 have "st' = s1" by (simp add: scan_event)
      with w show ?thesis by blast
    next
      case None
      with Cons.prems(1) ItemEv s1 have "scan lib cfg fp tgt xs s1 = Ret (err, st')"
        by (simp add: scan_event)
      from Cons.IH [OF this rest conjunct1 [OF w] conjunct2 [OF w] later] show ?thesis .
    qed
  qed
qed


lemma remoteCheckGTID_within:
  assumes "remoteCheckGTID lib cfg tgt st e = Ret fl"
    and "within m (rResult st)" and "within m (rCurrentTransaction st)"
    and "m \<le> LogPos (Header e)" and "EventSize (Header e) \<le> LogPos (Header e)"
  shows "case fl of
           Leave (Continue st') \<Rightarrow> within (LogPos (Header e)) (rResult st') \<and>
                                    within (LogPos (Header e)) (rCurrentTransaction st')
         | Leave (Stop (res, err)) \<Rightarrow> within (LogPos (Header e)) res
         | Proceed st' \<Rightarrow> within (LogPos (Header e)) (rResult st') \<and>
                          within (LogPos (Header e)) (rCurrentTransaction st')"
proof -
  note later = within_mono [OF assms(2) assms(4)] within_mono [OF assms(3) assms(4)]
  show ?thesis
  proof (cases "Event e")
    case (GTIDEvent sid gno)
    with assms later show ?thesis
      by (auto simp: remoteCheckGTID_def within_new within_next
          split: go.splits sum.splits if_splits option.splits)
  qed (use assms later in \<open>auto simp: remoteCheckGTID_def\<close>)
qed

lemma remoteTransactionEnd_within:
  assumes "within m (rResult st)" and "within m (rCurrentTransaction st)" and "m \<le> LogPos (Header e)"
  shows "within (LogPos (Header e)) (rResult (remoteTransactionEnd st e)) \<and>
         within (LogPos (Header e)) (rCurrentTransaction (remoteTransactionEnd st e))"
proof (cases "rCurrentTransaction st")
  case None
  with assms within_mono [OF assms(1) assms(3)] show ?thesis
    by (simp add: remoteTransactionEnd_def)
next
  case (Some t)
  with assms(2) have t: "within m (Some (t\<lparr>BinlogFile := startFile st\<rparr>))"
    by (simp add: within_file)
  from within_commit [OF t assms(3)] within_mono [OF t assms(3)] within_mono [OF assms(1) assms(3)] Some
  show ?thesis
    by (auto simp: remoteTransactionEnd_def remoteCommit_def Let_def split: option.splits)
qed

lemma handleRotation_fields [simp]:
  "rResult (handleRotation st e) = rResult st"
  "rCurrentTransaction (handleRotation st e) = rCurrentTransaction st"
  by (simp_all add: handleRotation_def split: Event.splits)

lemma remoteStep_within:
  assumes "remoteStep lib cfg tgt st e = Ret l"
    and "within m (rResult st)" and "within m (rCurrentTransaction st)"
    and "m \<le> LogPos (Header e)" and "EventSize (Header e) \<le> LogPos (Header e)"
  shows "case l of
           Continue st' \<Rightarrow> within (LogPos (Header e)) (rResult st') \<and>
                           within (LogPos (Header e)) (rCurrentTransaction st')
         | Stop (res, err) \<Rightarrow> within (LogPos (Header e)) res"
proof -
  note later = within_mono [OF assms(2) assms(4)] within_mono [OF assms(3) assms(4)]
  show ?thesis
  proof (cases "beforeStart cfg e \<or> afterEnd cfg e")
    case True
    with assms(1) later show ?thesis by (auto simp: remoteStep_def split: if_splits)
  next
    case False
    let ?s = "st\<lparr>rCurrentDatabase := trackDatabase (rCurrentDatabase st) e\<rparr>"
    from False assms(1) obtain fl where fl: "remoteCheckGTID lib cfg tgt ?s e = Ret fl"
      by (auto simp: remoteStep_def split: go.splits)
    have s: "within m (rResult ?s)" "within m (rCurrentTransaction ?s)" using assms by simp_all
    note w = remoteCheckGTID_within [OF fl s assms(4) assms(5)]
    show ?thesis
    proof (cases fl)
      case (Leave l1)
      with fl False assms(1) have "l = l1" by (auto simp: remoteStep_def)
      with w Leave show ?thesis by (simp split: loop.splits)
    next
      case (Proceed s1)
      with fl False assms(1) have l: "l = Continue (remoteTransactionEnd (handleRotation s1 e) e)"
        by (auto simp: remoteStep_def)
      from w Proceed have "within (LogPos (Header e)) (rResult (handleRotation s1 e))"
        "within (LogPos (Header e)) (rCurrentTransaction (handleRotation s1 e))" by simp_all
      from remoteTransactionEnd_within [OF this order_refl] show ?thesis unfolding l by simp
    qed
  qed
qed

lemma remoteLoop_within:
  "remoteLoop lib cfg tgt evs st = Ret (res, err) \<Longrightarrow> offsetsOrdered (gotEvents evs) \<Longrightarrow>
   within m (rResult st) \<Longrightarrow> within m (rCurrentTransaction st) \<Longrightarrow>
   \<forall>e\<in>set (gotEvents evs). m \<le> LogPos (Header e) \<Longrightarrow>
   \<exists>m'. within m' res"
proof (induction evs arbitrary: st m)
  case Nil
  then show ?case by auto
next
  case (Cons x xs)
  show ?case
  proof (cases x)
    case DeadlineExceeded
    with Cons.prems show ?thesis by auto
  next
    case (GetError msg)
    with Cons.prems(1) have "res = None" by simp
    then show ?thesis by simp
  next
    case (Got e)
    from Cons.prems(2) Got have size: "EventSize (Header e) \<le> LogPos (Header e)"
      and later: "\<forall>y\<in>set (gotEvents xs). LogPos (Header e) \<le> LogPos (Header y)"
      and rest: "offsetsOrdered (gotEvents xs)"
      by (simp_all add: offsetsOrdered_def)
    from Cons.prems(5) Got have m: "m \<le> LogPos (Header e)" by simp
    from Cons.prems(1) Got obtain l where l: "remoteStep lib cfg tgt st e = Ret l"
      by (auto split: go.splits)
    note w = remoteStep_within [OF l Cons.prems(3) Cons.prems(4) m size]
    show ?thesis
    proof (cases l)
      case (Stop r)
      with Cons.prems(1) Got l have "r = (res, err)" by simp
      with w Stop show ?thesis by auto
    next
      case (Continue s1)
      with Cons.prems(1) Got l have "remoteLoop lib cfg tgt xs s1 = Ret (res, err)" by simp
      moreover from w Continue have "within (LogPos (Header e)) (rResult s1)"
        "within (LogPos (Header e)) (rCurrentTransaction s1)" by simp_all
      ultimately show ?thesis using Cons.IH rest later by blast
    qed
  qed
qed

text \<open>
  Claim C4, as amended. When the end offsets of the events do not decrease along the
  sequence and no event is larger than its end offset, every match that
  \<^verbatim>\<open>searchBinlogFile\<close> or the remote \<^verbatim>\<open>Search\<close> returns, at the end of the stream or through
  early termination, has position \<open>\<le>\<close> commit position \<open>\<le>\<close> resume position.
\<close>

theorem positions_ordered:
  "(offsetsOrdered (eventsOf items) \<and>
    searchBinlogFile lib (fileSearcher cfg items) fp tgt = Ret (Some r, err) \<longrightarrow>
      Position r \<le> CommitPosition r \<and> CommitPosition r \<le> ResumePosition r) \<and>
   (offsetsOrdered (gotEvents evs) \<and>
    Search lib (remoteSearcher cfg evs) tgt = Ret (Some r', err') \<longrightarrow>
      Position r' \<le> CommitPosition r' \<and> CommitPosition r' \<le> ResumePosition r')"
proof -
  have local: "Position r \<le> CommitPosition r \<and> CommitPosition r \<le> ResumePosition r"
    if a: "offsetsOrdered (eventsOf items) \<and>
      searchBinlogFile lib (fileSearcher cfg items) fp tgt = Ret (Some r, err)"
  proof -
    from a obtain e st where st: "scan lib cfg fp tgt items initialState = Ret (e, st)"
      and r: "result st = Some r"
      by (auto simp: searchBinlogFile_fileSearcher split: go.splits option.splits if_splits)
    have "within 0 (result initialState)" "within 0 (currentTransaction initialState)"
      by (simp_all add: initialState_def)
    from scan_within [OF st conjunct1 [OF a] this] r obtain m' where "within m' (Some r)"
      by auto
    then show ?thesis
      by (simp add: within_def ordered_def)
  qed
  have remote: "Position r' \<le> CommitPosition r' \<and> CommitPosition r' \<le> ResumePosition r'"
    if a: "offsetsOrdered (gotEvents evs) \<and>
      Search lib (remoteSearcher cfg evs) tgt = Ret (Some r', err')"
  proof -
    from a have loop: "remoteLoop lib cfg tgt evs (remoteInitialState cfg) = Ret (Some r', err')"
      by (auto simp: Search_def remoteSearcher_def split: if_splits option.splits)
    have "within 0 (rResult (remoteInitialState cfg))" "within 0 (rCurrentTransaction (remoteInitialState cfg))"
      by (simp_all add: remoteInitialState_def)
    from remoteLoop_within [OF loop conjunct1 [OF a] this] obtain m' where "within m' (Some r')"
      by auto
    then show ?thesis
      by (simp add: within_def ordered_def)
  qed
  from local remote show ?thesis by blast
qed

text \<open>The theorem at a file and at a stream of four events.\<close>

theorem positions_ordered_witness:
  "Position (match50\<lparr>NextGTID := ''3e11fa47-71ca-11e1-9e33-c80aa9429562:200'', ResumePosition := 2100\<rparr>)
     \<le> CommitPosition (match50\<lparr>NextGTID := ''3e11fa47-71ca-11e1-9e33-c80aa9429562:200'', ResumePosition := 2100\<rparr>) \<and>
   CommitPosition (match50\<lparr>NextGTID := ''3e11fa47-71ca-11e1-9e33-c80aa9429562:200'', ResumePosition := 2100\<rparr>)
     \<le> ResumePosition (match50\<lparr>NextGTID := ''3e11fa47-71ca-11e1-9e33-c80aa9429562:200'', ResumePosition := 2100\<rparr>) \<and>
   searchBinlogFile refLib (fileSearcher plainConfig [ItemEv txn50, ItemEv insertQuery, ItemEv xid2000, ItemEv txn200])
       ''mysql-bin.000001'' targetU
     = Ret (Some (match50\<lparr>NextGTID := ''3e11fa47-71ca-11e1-9e33-c80aa9429562:200'', ResumePosition := 2100\<rparr>), None) \<and>
   Search refLib (remoteSearcher plainConfig [Got txn50, Got insertQuery, Got xid2000, Got txn200]) targetU
     = Ret (Some (match50\<lparr>NextGTID := ''3e11fa47-71ca-11e1-9e33-c80aa9429562:200'', ResumePosition := 2100\<rparr>), None)"
proof -
  let ?r = "match50\<lparr>NextGTID := ''3e11fa47-71ca-11e1-9e33-c80aa9429562:200'', ResumePosition := 2100\<rparr>"
  have local: "offsetsOrdered (eventsOf [ItemEv txn50, ItemEv insertQuery, ItemEv xid2000, ItemEv txn200]) \<and>
      searchBinlogFile refLib (fileSearcher plainConfig [ItemEv txn50, ItemEv insertQuery, ItemEv xid2000, ItemEv txn200])
        ''mysql-bin.000001'' targetU = Ret (Some ?r, None)"
    by code_simp
  have remote: "offsetsOrdered (gotEvents [Got txn50, Got insertQuery, Got xid2000, Got txn200]) \<and>
      Search refLib (remoteSearcher plainConfig [Got txn50, Got insertQuery, Got xid2000, Got txn200]) targetU
        = Ret (Some ?r, None)"
    by code_simp
  from positions_ordered [THEN conjunct1, THEN mp, OF local]
    positions_ordered [THEN conjunct2, THEN mp, OF remote] local remote
  show ?thesis by simp
qed

text \<open>
  Claim C4 as stated fails. In a file beyond 4 GiB the end offset of the commit has wrapped
  around and the start position exceeds the commit position. In a remote stream the next
  GTID arrives after a rotation, at a small offset of the next file, and the resume
  position is below the commit position.
\<close>

theorem positions_ordered_counterexample:
  "(case searchBinlogFile refLib (fileSearcher plainConfig [ItemEv txnNearEnd, ItemEv xidWrapped])
           ''mysql-bin.000001'' targetU of
      Ret (Some r, None) \<Rightarrow> \<not> Position r \<le> CommitPosition r
    | _ \<Rightarrow> False) \<and>
   (case Search refLib (remoteSearcher plainConfig [Got txn50, Got xid2000, Got rotateToNext, Got txn200next])
           targetU of
      Ret (Some r, None) \<Rightarrow> \<not> CommitPosition r \<le> ResumePosition r
    | _ \<Rightarrow> False)"
  by code_simp

section \<open>The highest transaction number\<close>

lemma sameMatch_refl [simp]: "sameMatch m m"
  by (simp add: sameMatch_def)

lemma sameResult_refl [simp]: "sameResult b b"
  by (simp add: sameResult_def split: option.splits)

lemma sameMatch_next:
  "sameMatch m (m\<lparr>NextGTID := g, ResumePosition := p\<rparr>)"
  by (simp add: sameMatch_def)

lemma bestOf_Some:
  "bestOf b cs = Some m \<Longrightarrow>
   (m \<in> set cs \<or> b = Some m) \<and> (\<forall>t\<in>set cs. GNO t \<le> GNO m) \<and> (\<forall>r. b = Some r \<longrightarrow> GNO r \<le> GNO m)"
proof (induction cs arbitrary: b)
  case Nil
  then show ?case by simp
next
  case (Cons c cs)
  let ?b = "case b of None \<Rightarrow> Some c | Some r \<Rightarrow> if GNO c > GNO r then Some c else Some r"
  from Cons.prems have "bestOf ?b cs = Some m" by simp
  from Cons.IH [OF this]
  have 1: "m \<in> set cs \<or> ?b = Some m" and 2: "\<forall>t\<in>set cs. GNO t \<le> GNO m"
    and 3: "\<forall>r. ?b = Some r \<longrightarrow> GNO r \<le> GNO m" by blast+
  show ?case
  proof (cases b)
    case None
    with 1 2 3 show ?thesis by auto
  next
    case (Some r)
    show ?thesis
    proof (cases "GNO c > GNO r")
      case True
      with Some 1 2 3 show ?thesis by auto
    next
      case False
      with Some 1 2 3 show ?thesis by (auto simp: not_less)
    qed
  qed
qed

lemma bestOf_None: "bestOf b cs = None \<Longrightarrow> cs = [] \<and> b = None"
  by (induction cs arbitrary: b) (auto split: option.splits if_splits)


lemma onEvent_opens_by:
  assumes "opensTransaction lib cfg tgt (currentDatabase st) e"
  shows "onEvent lib cfg fp tgt st e
           = Ret (None, st\<lparr>currentTransaction := openedBy fp (currentDatabase st) e\<rparr>)"
  using assms
  by (auto simp: opensTransaction_def timeFiltered_def inTarget_def eventGTID_def onEvent_def
      checkGTID_def trackDatabase_def databaseAccepted_def openedBy_def
      trackTransactionEnd_def isCommit_def
      split: Event.splits go.splits option.splits sum.splits)

lemma onEvent_rejected:
  assumes "\<not> timeFiltered cfg e" and "inTarget lib tgt e"
    and "\<not> databaseAccepted cfg (currentDatabase st)"
  shows "onEvent lib cfg fp tgt st e = Ret (None, st\<lparr>currentTransaction := None\<rparr>)"
  using assms
  by (auto simp: timeFiltered_def inTarget_def eventGTID_def onEvent_def
      checkGTID_def trackDatabase_def databaseAccepted_def
      split: Event.splits go.splits option.splits sum.splits)

lemma onEvent_outside_first:
  assumes "\<not> timeFiltered cfg e" and "outsideTarget lib tgt e" and "result st = None"
  shows "onEvent lib cfg fp tgt st e = Ret (None, st\<lparr>currentTransaction := None\<rparr>)"
  using assms
  by (auto simp: timeFiltered_def outsideTarget_def eventGTID_def onEvent_def
      checkGTID_def trackDatabase_def trackTransactionEnd_def
      split: Event.splits go.splits option.splits sum.splits)

lemma onEvent_unreadable:
  assumes "isGTIDEvent e" and "\<not> inTarget lib tgt e" and "\<not> outsideTarget lib tgt e"
    and "onEvent lib cfg fp tgt st e = Ret (err, st')"
  shows "err = None \<and> st' = st"
proof (cases "Event e")
  case (GTIDEvent sid gno)
  with assms show ?thesis
    by (auto simp: inTarget_def outsideTarget_def eventGTID_def onEvent_def
        checkGTID_def trackDatabase_def
        split: if_splits go.splits sum.splits)
qed (use assms in \<open>auto simp: isGTIDEvent_def\<close>)

lemma onEvent_plain:
  assumes "\<not> timeFiltered cfg e" and "\<not> isGTIDEvent e"
  shows "onEvent lib cfg fp tgt st e
           = Ret (None, trackTransactionEnd (st\<lparr>currentDatabase := trackDatabase (currentDatabase st) e\<rparr>) e)"
  using assms
  by (auto simp: timeFiltered_def isGTIDEvent_def onEvent_def checkGTID_def split: Event.splits)

lemma scan_refines:
  "scan lib cfg fp tgt (map ItemEv es) st = Ret (err, st') \<Longrightarrow> nextUnset st \<Longrightarrow>
   sameResult
     (bestOf (result st)
        (observedCommits lib cfg fp tgt (currentDatabase st) (currentTransaction st)
           (result st \<noteq> None) es))
     (result st')"
proof (induction es arbitrary: st)
  case Nil
  then show ?case by (simp add: scan_Nil)
next
  case (Cons e es)
  note run = Cons.prems(1) and unset = Cons.prems(2)
  have continue: "sameResult
      (bestOf (result s1)
         (observedCommits lib cfg fp tgt (currentDatabase s1) (currentTransaction s1)
            (result s1 \<noteq> None) es))
      (result st')"
    if step: "onEvent lib cfg fp tgt st e = Ret (None, s1)" for s1
  proof -
    from run step have "scan lib cfg fp tgt (map ItemEv es) s1 = Ret (err, st')"
      by (simp add: scan_event)
    from Cons.IH [OF this onEvent_nextUnset [OF step unset]] show ?thesis .
  qed
  show ?case
  proof (cases "timeFiltered cfg e")
    case True
    from continue [OF onEvent_filtered [OF True]] True show ?thesis by simp
  next
    case passes: False
    show ?thesis
    proof (cases "inTarget lib tgt e")
      case inside: True
      show ?thesis
      proof (cases "databaseAccepted cfg (currentDatabase st)")
        case True
        with passes inside have "opensTransaction lib cfg tgt (currentDatabase st) e"
          by (simp add: opensTransaction_def)
        from continue [OF onEvent_opens_by [OF this]] passes inside True show ?thesis by simp
      next
        case False
        from continue [OF onEvent_rejected [OF passes inside False]] passes inside False
        show ?thesis by simp
      qed
    next
      case not_inside: False
      show ?thesis
      proof (cases "outsideTarget lib tgt e")
        case outside: True
        show ?thesis
        proof (cases "result st")
          case None
          from continue [OF onEvent_outside_first [OF passes outside None]] passes not_inside outside None
          show ?thesis by simp
        next
          case (Some r)
          with unset have "NextGTID r = []" by (simp add: nextUnset_def)
          from passes outside have "boundaryEvent lib cfg tgt e" by (simp add: boundaryEvent_def)
          from onEvent_boundary [OF this Some \<open>NextGTID r = []\<close>, of fp] obtain g where
            stop: "onEvent lib cfg fp tgt st e = Ret (Some ''found_next_gtid'',
              st\<lparr>result := Some (r\<lparr>NextGTID := g, ResumePosition := LogPos (Header e)\<rparr>)\<rparr>)"
            by blast
          with run have "result st' = Some (r\<lparr>NextGTID := g, ResumePosition := LogPos (Header e)\<rparr>)"
            by (auto simp: scan_event)
          with passes not_inside outside Some show ?thesis
            by (simp add: sameResult_def sameMatch_next)
        qed
      next
        case not_outside: False
        show ?thesis
        proof (cases "isGTIDEvent e")
          case True
          from run obtain err1 s1 where s1: "onEvent lib cfg fp tgt st e = Ret (err1, s1)"
            by (auto simp: scan_event split: go.splits)
          from onEvent_unreadable [OF True not_inside not_outside s1] s1
          have "onEvent lib cfg fp tgt st e = Ret (None, st)" by simp
          from continue [OF this] passes not_inside not_outside True show ?thesis by simp
        next
          case False
          let ?s = "st\<lparr>currentDatabase := trackDatabase (currentDatabase st) e\<rparr>"
          note c = continue [OF onEvent_plain [OF passes False]]
          show ?thesis
          proof (cases "currentTransaction st")
            case None
            with c passes not_inside not_outside False show ?thesis
              by (simp add: trackTransactionEnd_def)
          next
            case (Some t)
            show ?thesis
            proof (cases "isCommit e")
              case True
              with c passes not_inside not_outside False Some show ?thesis
                by (auto simp: trackTransactionEnd_def commitTransaction_def committedAt_def Let_def
                    split: option.splits if_splits)
            next
              case False
              with c passes not_inside not_outside \<open>\<not> isGTIDEvent e\<close> Some show ?thesis
                by (simp add: trackTransactionEnd_def)
            qed
          qed
        qed
      qed
    qed
  qed
qed

lemma scan_events_error:
  "scan lib cfg fp tgt (map ItemEv es) st = Ret (Some msg, st') \<Longrightarrow> msg = ''found_next_gtid''"
proof (induction es arbitrary: st)
  case Nil
  then show ?case by (simp add: scan_Nil)
next
  case (Cons e es)
  from Cons.prems obtain err1 s1 where s1: "onEvent lib cfg fp tgt st e = Ret (err1, s1)"
    by (auto simp: scan_event split: go.splits)
  show ?case
  proof (cases err1)
    case None
    with Cons.prems s1 have "scan lib cfg fp tgt (map ItemEv es) s1 = Ret (Some msg, st')"
      by (simp add: scan_event)
    from Cons.IH [OF this] show ?thesis .
  next
    case (Some sig)
    with Cons.prems s1 have "sig = msg" by (simp add: scan_event)
    with onEvent_error [of lib cfg fp tgt st e sig s1] s1 Some show ?thesis by simp
  qed
qed

text \<open>
  Claim C2. Let a file of events hold transactions of the target set that commit: the
  list of the committed matches observed in the scan is not empty. Then
  \<^verbatim>\<open>searchBinlogFile\<close> returns, with no error, one of these matches (but for the next GTID
  and the resume position that the boundary sets), and no committed match observed in
  the scan has a higher transaction number.
\<close>

theorem highest_gno_returned:
  assumes "searchBinlogFile lib (fileSearcher cfg (map ItemEv es)) fp tgt = Ret (res, err)"
    and "observedCommits lib cfg fp tgt [] None False es \<noteq> []"
  shows "\<exists>r m. res = Some r \<and> err = None \<and>
           m \<in> set (observedCommits lib cfg fp tgt [] None False es) \<and> sameMatch m r \<and>
           (\<forall>t\<in>set (observedCommits lib cfg fp tgt [] None False es). GNO t \<le> GNO m)"
proof -
  let ?cs = "observedCommits lib cfg fp tgt [] None False es"
  from assms(1) obtain e st where st: "scan lib cfg fp tgt (map ItemEv es) initialState = Ret (e, st)"
    by (auto simp: searchBinlogFile_fileSearcher split: go.splits)
  have "e = None \<or> e = Some ''found_next_gtid''"
    using scan_events_error [of lib cfg fp tgt es initialState _ st] st by (cases e) auto
  with assms(1) st have res: "res = result st" and err: "err = None"
    by (auto simp: searchBinlogFile_fileSearcher)
  have "nextUnset initialState" by (simp add: nextUnset_def initialState_def)
  from scan_refines [OF st this] have same: "sameResult (bestOf None ?cs) (result st)"
    by (simp add: initialState_def)
  from assms(2) bestOf_None [of None ?cs] obtain m where m: "bestOf None ?cs = Some m"
    by (cases "bestOf None ?cs") auto
  from bestOf_Some [OF m] have "m \<in> set ?cs" "\<forall>t\<in>set ?cs. GNO t \<le> GNO m" by simp_all
  moreover from same m obtain r where "result st = Some r" "sameMatch m r"
    by (auto simp: sameResult_def split: option.splits)
  ultimately show ?thesis using res err by blast
qed

text \<open>The theorem at a file with the transactions 50 and 10, in this order.\<close>

theorem highest_gno_returned_witness:
  "searchBinlogFile refLib (fileSearcher plainConfig (map ItemEv [txn50, xid2000, txn10, commit2600]))
      ''mysql-bin.000001'' targetU
     = Ret (Some match50, None) \<and>
   map GNO (observedCommits refLib plainConfig ''mysql-bin.000001'' targetU [] None False
      [txn50, xid2000, txn10, commit2600]) = [50, 10] \<and>
   (\<exists>r m. Some match50 = Some r \<and> (None :: string option) = None \<and>
      m \<in> set (observedCommits refLib plainConfig ''mysql-bin.000001'' targetU [] None False
                 [txn50, xid2000, txn10, commit2600]) \<and>
      sameMatch m r \<and>
      (\<forall>t\<in>set (observedCommits refLib plainConfig ''mysql-bin.000001'' targetU [] None False
                   [txn50, xid2000, txn10, commit2600]). GNO t \<le> GNO m))"
proof -
  let ?es = "[txn50, xid2000, txn10, commit2600]"
  have run: "searchBinlogFile refLib (fileSearcher plainConfig (map ItemEv ?es)) ''mysql-bin.000001'' targetU
      = Ret (Some match50, None)"
    by code_simp
  have gnos: "map GNO (observedCommits refLib plainConfig ''mysql-bin.000001'' targetU [] None False ?es)
      = [50, 10]"
    by code_simp
  have some: "observedCommits refLib plainConfig ''mysql-bin.000001'' targetU [] None False ?es \<noteq> []"
    by code_simp
  show ?thesis
  proof (intro conjI)
    show "searchBinlogFile refLib (fileSearcher plainConfig (map ItemEv ?es)) ''mysql-bin.000001'' targetU
      = Ret (Some match50, None)"
      by (rule run)
    show "map GNO (observedCommits refLib plainConfig ''mysql-bin.000001'' targetU [] None False ?es)
      = [50, 10]"
      by (rule gnos)
    show "\<exists>r m. Some match50 = Some r \<and> (None :: string option) = None \<and>
      m \<in> set (observedCommits refLib plainConfig ''mysql-bin.000001'' targetU [] None False ?es) \<and>
      sameMatch m r \<and>
      (\<forall>t\<in>set (observedCommits refLib plainConfig ''mysql-bin.000001'' targetU [] None False ?es). GNO t \<le> GNO m)"
      by (rule highest_gno_returned [OF run some])
  qed
qed

section \<open>The selection of the coordinator\<close>

lemma checkGTID_Parallel:
  "checkGTID lib (cfg\<lparr>Parallel := n\<rparr>) fp tgt st e = checkGTID lib cfg fp tgt st e"
  by (simp add: checkGTID_def split: Event.splits go.splits sum.splits option.splits)

lemma onEvent_Parallel:
  "onEvent lib (cfg\<lparr>Parallel := n\<rparr>) fp tgt = onEvent lib cfg fp tgt"
  by (intro ext)
     (simp add: onEvent_def checkGTID_Parallel beforeStart_def afterEnd_def startTimestamp_def
        endTimestamp_def)

lemma searchBinlogFile_Parallel:
  "searchBinlogFile lib (s\<lparr>config := (config s)\<lparr>Parallel := n\<rparr>\<rparr>) fp tgt = searchBinlogFile lib s fp tgt"
  by (simp add: searchBinlogFile_def onEvent_Parallel)

lemma matchOf_Parallel:
  "matchOf lib (s\<lparr>config := (config s)\<lparr>Parallel := n\<rparr>\<rparr>) files tgt i = matchOf lib s files tgt i"
  by (simp add: matchOf_def searchBinlogFile_Parallel)

lemma workerStep_length:
  "workerStep lib s files tgt i c = Some (Ret c') \<Longrightarrow> length (pcs c') = length (pcs c)"
  by (auto simp: workerStep_def split: if_splits pc.splits go.splits prod.splits option.splits)

lemma workerStep_none:
  assumes step: "workerStep lib s files tgt i c = Some (Ret c')"
    and none: "\<forall>j<length (pcs c). matchOf lib s files tgt j = None" and empty: "resultChan c = []"
  shows "resultChan c' = []"
proof -
  from step have i: "i < length (pcs c)" by (auto simp: workerStep_def split: if_splits)
  with none have "matchOf lib s files tgt i = None" by simp
  then have no: "\<And>m. searchBinlogFile lib s (files ! i) tgt \<noteq> Ret (Some m, None)"
    by (auto simp: matchOf_def)
  from step empty i no show ?thesis
    by (auto simp: workerStep_def split: if_splits pc.splits go.splits prod.splits option.splits)
qed

lemma workerStep_solo:
  assumes step: "workerStep lib s files tgt i c = Some (Ret c')"
    and k: "k < length (pcs c)" and r: "matchOf lib s files tgt k = Some r"
    and others: "\<forall>j<length (pcs c). j \<noteq> k \<longrightarrow> matchOf lib s files tgt j = None"
    and inv: "soloInv k r c"
  shows "soloInv k r c'"
proof (cases "i = k")
  case True
  from r have "searchBinlogFile lib s (files ! k) tgt = Ret (Some r, None)"
    by (auto simp: matchOf_def split: go.splits prod.splits option.splits)
  with step inv k True show ?thesis
    by (auto simp: workerStep_def soloInv_def split: if_splits pc.splits)
next
  case False
  from step have i: "i < length (pcs c)" by (auto simp: workerStep_def split: if_splits)
  with others False have "matchOf lib s files tgt i = None" by simp
  then have no: "\<And>m. searchBinlogFile lib s (files ! i) tgt \<noteq> Ret (Some m, None)"
    by (auto simp: matchOf_def)
  from inv i False have np: "pcs c ! i \<noteq> Published" by (simp add: soloInv_def)
  from step inv k False i no np show ?thesis
    by (auto simp: workerStep_def soloInv_def nth_list_update
        split: if_splits pc.splits go.splits prod.splits option.splits)
qed

lemma runSchedule_length:
  "runSchedule lib s files tgt sched c = Some (Ret c') \<Longrightarrow> length (pcs c') = length (pcs c)"
proof (induction sched arbitrary: c)
  case Nil
  then show ?case by simp
next
  case (Cons i sched)
  from Cons.prems obtain c1 where c1: "workerStep lib s files tgt i c = Some (Ret c1)"
    and rest: "runSchedule lib s files tgt sched c1 = Some (Ret c')"
    by (auto split: option.splits go.splits)
  from Cons.IH [OF rest] workerStep_length [OF c1] show ?case by simp
qed

lemma runSchedule_none:
  "runSchedule lib s files tgt sched c = Some (Ret c') \<Longrightarrow>
   \<forall>j<length (pcs c). matchOf lib s files tgt j = None \<Longrightarrow> resultChan c = [] \<Longrightarrow>
   resultChan c' = []"
proof (induction sched arbitrary: c)
  case Nil
  then show ?case by simp
next
  case (Cons i sched)
  from Cons.prems(1) obtain c1 where c1: "workerStep lib s files tgt i c = Some (Ret c1)"
    and rest: "runSchedule lib s files tgt sched c1 = Some (Ret c')"
    by (auto split: option.splits go.splits)
  from workerStep_length [OF c1] Cons.prems(2)
  have "\<forall>j<length (pcs c1). matchOf lib s files tgt j = None" by simp
  from Cons.IH [OF rest this workerStep_none [OF c1 Cons.prems(2) Cons.prems(3)]] show ?case .
qed

lemma runSchedule_solo:
  "runSchedule lib s files tgt sched c = Some (Ret c') \<Longrightarrow> k < length (pcs c) \<Longrightarrow>
   matchOf lib s files tgt k = Some r \<Longrightarrow>
   \<forall>j<length (pcs c). j \<noteq> k \<longrightarrow> matchOf lib s files tgt j = None \<Longrightarrow>
   soloInv k r c \<Longrightarrow> soloInv k r c'"
proof (induction sched arbitrary: c)
  case Nil
  then show ?case by simp
next
  case (Cons i sched)
  from Cons.prems(1) obtain c1 where c1: "workerStep lib s files tgt i c = Some (Ret c1)"
    and rest: "runSchedule lib s files tgt sched c1 = Some (Ret c')"
    by (auto split: option.splits go.splits)
  note len = workerStep_length [OF c1]
  from len Cons.prems(2) have k: "k < length (pcs c1)" by simp
  from len Cons.prems(4) have others: "\<forall>j<length (pcs c1). j \<noteq> k \<longrightarrow> matchOf lib s files tgt j = None"
    by simp
  from workerStep_solo [OF c1 Cons.prems(2) Cons.prems(3) Cons.prems(4) Cons.prems(5)]
  have "soloInv k r c1" .
  from Cons.IH [OF rest k Cons.prems(3) others this] show ?case .
qed

lemma runSchedule_panic:
  "runSchedule lib s files tgt sched c = Some Panic \<Longrightarrow>
   \<exists>i<length (pcs c). searchBinlogFile lib s (files ! i) tgt = Panic"
proof (induction sched arbitrary: c)
  case Nil
  then show ?case by simp
next
  case (Cons i sched)
  show ?case
  proof (cases "workerStep lib s files tgt i c")
    case None
    with Cons.prems show ?thesis by simp
  next
    case (Some x)
    show ?thesis
    proof (cases x)
      case Panic
      with Some have "i < length (pcs c) \<and> searchBinlogFile lib s (files ! i) tgt = Panic"
        by (auto simp: workerStep_def split: if_splits pc.splits go.splits prod.splits option.splits)
      then show ?thesis by blast
    next
      case (Ret c1)
      with Some Cons.prems have "runSchedule lib s files tgt sched c1 = Some Panic" by simp
      from Cons.IH [OF this] workerStep_length [of lib s files tgt i c c1] Some Ret
      show ?thesis by simp
    qed
  qed
qed

text \<open>With at most one file that holds a match, every run ends with the same channel.\<close>

lemma SearchParallel_unique:
  assumes total: "\<forall>i<length files. searchBinlogFile lib s (files ! i) tgt \<noteq> Panic"
    and run: "SearchParallel lib s files tgt sched = Some x"
  shows "(\<forall>j<length files. matchOf lib s files tgt j = None) \<longrightarrow> x = Ret (None, None)"
    and "k < length files \<Longrightarrow> matchOf lib s files tgt k = Some r \<Longrightarrow>
         \<forall>j<length files. j \<noteq> k \<longrightarrow> matchOf lib s files tgt j = None \<Longrightarrow> x = Ret (Some r, None)"
proof -
  let ?c0 = "startCoordinator files"
  have len0: "length (pcs ?c0) = length files" by (simp add: startCoordinator_def)
  have "runSchedule lib s files tgt sched ?c0 \<noteq> Some Panic"
    using runSchedule_panic [of lib s files tgt sched ?c0] total len0 by auto
  with run obtain c where c: "runSchedule lib s files tgt sched ?c0 = Some (Ret c)"
    and fin: "list_all (\<lambda>p. p = Finished) (pcs c)" and x: "x = Ret (bestOf None (resultChan c), None)"
    by (auto simp: SearchParallel_def split: option.splits go.splits if_splits)
  note len = runSchedule_length [OF c]
  show "(\<forall>j<length files. matchOf lib s files tgt j = None) \<longrightarrow> x = Ret (None, None)"
  proof
    assume "\<forall>j<length files. matchOf lib s files tgt j = None"
    with len0 have "\<forall>j<length (pcs ?c0). matchOf lib s files tgt j = None" by simp
    from runSchedule_none [OF c this] have "resultChan c = []" by (simp add: startCoordinator_def)
    with x show "x = Ret (None, None)" by simp
  qed
  show "x = Ret (Some r, None)"
    if k: "k < length files" and r: "matchOf lib s files tgt k = Some r"
      and others: "\<forall>j<length files. j \<noteq> k \<longrightarrow> matchOf lib s files tgt j = None"
  proof -
    from k len0 have k0: "k < length (pcs ?c0)" by simp
    from others len0 have o0: "\<forall>j<length (pcs ?c0). j \<noteq> k \<longrightarrow> matchOf lib s files tgt j = None" by simp
    have "soloInv k r ?c0" using k by (simp add: soloInv_def startCoordinator_def)
    from runSchedule_solo [OF c k0 r o0 this] have inv: "soloInv k r c" .
    from fin k len len0 have "pcs c ! k = Finished" by (simp add: list_all_length)
    with inv have "resultChan c = [r]" by (simp add: soloInv_def)
    with x show ?thesis by simp
  qed
qed


text \<open>
  Claim C7, as amended. In every run of \<^verbatim>\<open>SearchParallel\<close> the result is the best of the
  matches published in that run: one of them, and none of them has a higher transaction
  number. When no scan panics and at most one file yields a match, the result is the same
  for every schedule and every capacity of the semaphore: two runs, the second with the
  capacity \<open>n\<close>, return the same.
\<close>

theorem coordinator_selects_highest_published:
  "(SearchParallel lib s files tgt sched = Some (Ret (res, err)) \<longrightarrow>
      err = None \<and>
      (\<exists>c. runSchedule lib s files tgt sched (startCoordinator files) = Some (Ret c) \<and>
           res = bestOf None (resultChan c) \<and>
           (resultChan c \<noteq> [] \<longrightarrow>
              (\<exists>m\<in>set (resultChan c). res = Some m \<and> (\<forall>t\<in>set (resultChan c). GNO t \<le> GNO m))))) \<and>
   ((\<forall>i<length files. searchBinlogFile lib s (files ! i) tgt \<noteq> Panic) \<and>
    (\<forall>i<length files. \<forall>j<length files.
        matchOf lib s files tgt i \<noteq> None \<and> matchOf lib s files tgt j \<noteq> None \<longrightarrow> i = j) \<and>
    SearchParallel lib s files tgt sched1 = Some x1 \<and>
    SearchParallel lib (s\<lparr>config := (config s)\<lparr>Parallel := n\<rparr>\<rparr>) files tgt sched2 = Some x2 \<longrightarrow>
      x1 = x2)"
proof -
  have published: "err = None \<and>
      (\<exists>c. runSchedule lib s files tgt sched (startCoordinator files) = Some (Ret c) \<and>
           res = bestOf None (resultChan c) \<and>
           (resultChan c \<noteq> [] \<longrightarrow>
              (\<exists>m\<in>set (resultChan c). res = Some m \<and> (\<forall>t\<in>set (resultChan c). GNO t \<le> GNO m))))"
    if run: "SearchParallel lib s files tgt sched = Some (Ret (res, err))"
  proof -
    from run obtain c where c: "runSchedule lib s files tgt sched (startCoordinator files) = Some (Ret c)"
      and res: "res = bestOf None (resultChan c)" and err: "err = None"
      by (auto simp: SearchParallel_def split: option.splits go.splits if_splits)
    have "\<exists>m\<in>set (resultChan c). res = Some m \<and> (\<forall>t\<in>set (resultChan c). GNO t \<le> GNO m)"
      if "resultChan c \<noteq> []"
    proof -
      from that bestOf_None [of None "resultChan c"] obtain m where m: "bestOf None (resultChan c) = Some m"
        by (cases "bestOf None (resultChan c)") auto
      from bestOf_Some [OF m] res m show ?thesis by auto
    qed
    with c res err show ?thesis by blast
  qed
  have same: "x1 = x2"
    if a: "(\<forall>i<length files. searchBinlogFile lib s (files ! i) tgt \<noteq> Panic) \<and>
      (\<forall>i<length files. \<forall>j<length files.
        matchOf lib s files tgt i \<noteq> None \<and> matchOf lib s files tgt j \<noteq> None \<longrightarrow> i = j) \<and>
      SearchParallel lib s files tgt sched1 = Some x1 \<and>
      SearchParallel lib (s\<lparr>config := (config s)\<lparr>Parallel := n\<rparr>\<rparr>) files tgt sched2 = Some x2"
  proof -
    let ?s2 = "s\<lparr>config := (config s)\<lparr>Parallel := n\<rparr>\<rparr>"
    from a have total1: "\<forall>i<length files. searchBinlogFile lib s (files ! i) tgt \<noteq> Panic"
      and run1: "SearchParallel lib s files tgt sched1 = Some x1"
      and run2: "SearchParallel lib ?s2 files tgt sched2 = Some x2"
      and unique: "\<forall>i<length files. \<forall>j<length files.
        matchOf lib s files tgt i \<noteq> None \<and> matchOf lib s files tgt j \<noteq> None \<longrightarrow> i = j"
      by blast+
    from total1 have total2: "\<forall>i<length files. searchBinlogFile lib ?s2 (files ! i) tgt \<noteq> Panic"
      by (simp add: searchBinlogFile_Parallel)
    show ?thesis
    proof (cases "\<forall>j<length files. matchOf lib s files tgt j = None")
      case True
      then have "\<forall>j<length files. matchOf lib ?s2 files tgt j = None"
        by (simp add: matchOf_Parallel)
      with SearchParallel_unique(1) [OF total2 run2] SearchParallel_unique(1) [OF total1 run1] True
      show ?thesis by simp
    next
      case False
      then obtain k r where k: "k < length files" and r: "matchOf lib s files tgt k = Some r"
        by auto
      with unique have others: "\<forall>j<length files. j \<noteq> k \<longrightarrow> matchOf lib s files tgt j = None"
        by (metis option.distinct(1))
      from r others have r2: "matchOf lib ?s2 files tgt k = Some r"
        and others2: "\<forall>j<length files. j \<noteq> k \<longrightarrow> matchOf lib ?s2 files tgt j = None"
        by (simp_all add: matchOf_Parallel)
      from SearchParallel_unique(2) [OF total1 run1 k r others]
        SearchParallel_unique(2) [OF total2 run2 k r2 others2]
      show ?thesis by simp
    qed
  qed
  from published same show ?thesis by blast
qed

text \<open>
  Claim C7 as stated fails when two files hold a match. With capacity 1 the goroutine of
  the first file runs first, publishes transaction 50 and cancels; the second goroutine
  returns without scanning. With capacity 8 both goroutines pass the cancellation check
  before either publishes, and transaction 60 is selected. With capacity 1 and the second
  goroutine first, transaction 60 is selected as well.
\<close>

theorem coordinator_order_counterexample:
  "SearchParallel refLib twoMatches [''mysql-bin.000001'', ''mysql-bin.000002''] targetU
      [0, 0, 0, 0, 1, 1] = Some (Ret (Some match50, None)) \<and>
   (case SearchParallel refLib (twoMatches\<lparr>config := (config twoMatches)\<lparr>Parallel := 8\<rparr>\<rparr>)
           [''mysql-bin.000001'', ''mysql-bin.000002''] targetU [0, 1, 0, 1, 0, 1, 0, 1] of
      Some (Ret (Some r, None)) \<Rightarrow> GNO r = 60 \<and> r \<noteq> match50
    | _ \<Rightarrow> False) \<and>
   (case SearchParallel refLib twoMatches [''mysql-bin.000001'', ''mysql-bin.000002''] targetU
           [1, 1, 1, 1, 0, 0] of
      Some (Ret (Some r, None)) \<Rightarrow> GNO r = 60 \<and> r \<noteq> match50
    | _ \<Rightarrow> False)"
  by code_simp


text \<open>
  The theorem at a file with a match and a file that the parser does not know, for a
  sequential run with capacity 1 and an interleaved run with capacity 8.
\<close>

theorem coordinator_selects_highest_published_witness:
  "SearchParallel refLib twoMatches [''mysql-bin.000001'', ''mysql-bin.000003''] targetU
      [1, 1, 1, 0, 0, 0, 0] = Some (Ret (Some match50, None)) \<and>
   SearchParallel refLib (twoMatches\<lparr>config := (config twoMatches)\<lparr>Parallel := 8\<rparr>\<rparr>)
      [''mysql-bin.000001'', ''mysql-bin.000003''] targetU [0, 1, 0, 1, 0, 1, 0]
     = Some (Ret (Some match50, None)) \<and>
   (\<exists>c. runSchedule refLib twoMatches [''mysql-bin.000001'', ''mysql-bin.000003''] targetU
          [1, 1, 1, 0, 0, 0, 0] (startCoordinator [''mysql-bin.000001'', ''mysql-bin.000003''])
          = Some (Ret c) \<and>
        Some match50 = bestOf None (resultChan c) \<and>
        (resultChan c \<noteq> [] \<longrightarrow>
           (\<exists>m\<in>set (resultChan c). Some match50 = Some m \<and> (\<forall>t\<in>set (resultChan c). GNO t \<le> GNO m))))"
proof -
  let ?fs = "[''mysql-bin.000001'', ''mysql-bin.000003'']"
  let ?s8 = "twoMatches\<lparr>config := (config twoMatches)\<lparr>Parallel := 8\<rparr>\<rparr>"
  have first: "searchBinlogFile refLib twoMatches ''mysql-bin.000001'' targetU = Ret (Some match50, None)"
    by code_simp
  have third: "searchBinlogFile refLib twoMatches ''mysql-bin.000003'' targetU
      = Ret (None, Some ''file not found in mock: mysql-bin.000003'')"
    by code_simp
  have total: "\<forall>i<length ?fs. searchBinlogFile refLib twoMatches (?fs ! i) targetU \<noteq> Panic"
    by (simp add: less_Suc_eq first third)
  have unique: "\<forall>i<length ?fs. \<forall>j<length ?fs.
      matchOf refLib twoMatches ?fs targetU i \<noteq> None \<and> matchOf refLib twoMatches ?fs targetU j \<noteq> None
      \<longrightarrow> i = j"
    by (simp add: less_Suc_eq matchOf_def first third)
  have run1: "SearchParallel refLib twoMatches ?fs targetU [1, 1, 1, 0, 0, 0, 0]
      = Some (Ret (Some match50, None))"
    by code_simp
  have "SearchParallel refLib ?s8 ?fs targetU [0, 1, 0, 1, 0, 1, 0] \<noteq> None"
    by code_simp
  then obtain x2 where run2: "SearchParallel refLib ?s8 ?fs targetU [0, 1, 0, 1, 0, 1, 0] = Some x2"
    by blast
  from coordinator_selects_highest_published [THEN conjunct2, THEN mp, OF conjI [OF total conjI [OF unique conjI [OF run1 run2]]]]
  have "Ret (Some match50, None) = x2" .
  with run2 have two: "SearchParallel refLib ?s8 ?fs targetU [0, 1, 0, 1, 0, 1, 0] = Some (Ret (Some match50, None))"
    by simp
  from coordinator_selects_highest_published [THEN conjunct1, THEN mp, OF run1]
  have three: "\<exists>c. runSchedule refLib twoMatches ?fs targetU [1, 1, 1, 0, 0, 0, 0] (startCoordinator ?fs)
          = Some (Ret c) \<and>
        Some match50 = bestOf None (resultChan c) \<and>
        (resultChan c \<noteq> [] \<longrightarrow>
           (\<exists>m\<in>set (resultChan c). Some match50 = Some m \<and> (\<forall>t\<in>set (resultChan c). GNO t \<le> GNO m)))"
    by (rule conjunct2)
  show ?thesis
    by (intro conjI) (rule run1, rule two, rule three)
qed

section \<open>The end of the stream\<close>

lemma onEvent_resumeIsCommit:
  assumes "onEvent lib cfg fp tgt st e = Ret (None, st')" and "resumeIsCommit st"
  shows "resumeIsCommit st'"
proof (cases "timeFiltered cfg e")
  case True
  with assms show ?thesis by (simp add: onEvent_filtered)
next
  case passes: False
  show ?thesis
  proof (cases "isGTIDEvent e")
    case False
    from onEvent_plain [OF passes False, of lib fp tgt st] assms(1)
    have "st' = trackTransactionEnd (st\<lparr>currentDatabase := trackDatabase (currentDatabase st) e\<rparr>) e"
      by simp
    with assms(2) show ?thesis
      by (auto simp: resumeIsCommit_def trackTransactionEnd_def commitTransaction_def Let_def
          split: option.splits if_splits)
  next
    case True
    then obtain sid gno where "Event e = GTIDEvent sid gno"
      by (auto simp: isGTIDEvent_def split: Event.splits)
    with assms passes show ?thesis
      by (auto simp: onEvent_def checkGTID_def timeFiltered_def resumeIsCommit_def
          trackTransactionEnd_def isCommit_def
          split: go.splits sum.splits if_splits option.splits)
  qed
qed

lemma scan_resumeIsCommit:
  "scan lib cfg fp tgt items st = Ret (None, st') \<Longrightarrow> resumeIsCommit st \<Longrightarrow> resumeIsCommit st'"
proof (induction items arbitrary: st)
  case Nil
  then show ?case by (simp add: scan_Nil)
next
  case (Cons x xs)
  show ?case
  proof (cases x)
    case (ItemErr err)
    with Cons.prems show ?thesis by (simp add: scan_error)
  next
    case (ItemEv e)
    with Cons.prems obtain s1 where s1: "onEvent lib cfg fp tgt st e = Ret (None, s1)"
      and rest: "scan lib cfg fp tgt xs s1 = Ret (None, st')"
      by (auto simp: scan_event split: go.splits prod.splits option.splits)
    from onEvent_resumeIsCommit [OF s1 Cons.prems(2)] Cons.IH [OF rest] show ?thesis by simp
  qed
qed

lemma end_of_stream_result:
  assumes "scan lib cfg fp tgt items initialState = Ret (None, st)" and "result st = Some r"
  shows "searchBinlogFile lib (fileSearcher cfg items) fp tgt = Ret (Some r, None) \<and>
         ResumePosition r = CommitPosition r \<and> NextGTID r = []"
proof -
  have "nextUnset initialState" "resumeIsCommit initialState"
    by (simp_all add: nextUnset_def resumeIsCommit_def initialState_def)
  with scan_nextUnset [OF assms(1)] scan_resumeIsCommit [OF assms(1)] assms(2)
  have "ResumePosition r = CommitPosition r \<and> NextGTID r = []"
    by (simp add: nextUnset_def resumeIsCommit_def)
  with assms show ?thesis by (simp add: searchBinlogFile_fileSearcher)
qed

text \<open>
  Claim C3. A file holds exactly one transaction of the target set, and it commits: after
  events \<open>a\<close> with no GTID of the target set, which the scan gets through, a GTID event \<open>g\<close>
  opens the transaction, events \<open>b\<close> that are neither GTID events nor commits follow, and
  \<open>c\<close> commits it. No GTID event comes later (\<open>d\<close>). Then \<^verbatim>\<open>searchBinlogFile\<close> returns
  the match with no error, its resume position equals its commit position, which is the
  end offset of \<open>c\<close>, and its next GTID is the empty string. More generally, whenever the
  scan reaches the end of the stream, the match it returns has its resume position at
  its commit position and an empty next GTID.
\<close>

theorem single_match_resume_is_commit:
  "(scan lib cfg fp tgt (map ItemEv a) initialState = Ret (None, st0) \<and>
    (\<forall>x\<in>set a. \<not> inTarget lib tgt x) \<and>
    opensTransaction lib cfg tgt (currentDatabase st0) g \<and>
    (\<forall>x\<in>set b. \<not> isGTIDEvent x \<and> \<not> commitsTransaction cfg x) \<and>
    commitsTransaction cfg c \<and>
    (\<forall>x\<in>set d. \<not> isGTIDEvent x) \<longrightarrow>
      (\<exists>r. searchBinlogFile lib (fileSearcher cfg (map ItemEv (a @ g # b @ c # d))) fp tgt
               = Ret (Some r, None) \<and>
           ResumePosition r = CommitPosition r \<and> NextGTID r = [] \<and>
           CommitPosition r = LogPos (Header c) \<and> Some (GTID r) = eventGTID g)) \<and>
   (scan lib cfg fp tgt items initialState = Ret (None, st) \<and> result st = Some r' \<longrightarrow>
      searchBinlogFile lib (fileSearcher cfg items) fp tgt = Ret (Some r', None) \<and>
      ResumePosition r' = CommitPosition r' \<and> NextGTID r' = [])"
proof -
  have shape: "\<exists>r. searchBinlogFile lib (fileSearcher cfg (map ItemEv (a @ g # b @ c # d))) fp tgt
               = Ret (Some r, None) \<and>
           ResumePosition r = CommitPosition r \<and> NextGTID r = [] \<and>
           CommitPosition r = LogPos (Header c) \<and> Some (GTID r) = eventGTID g"
    if h: "scan lib cfg fp tgt (map ItemEv a) initialState = Ret (None, st0) \<and>
      (\<forall>x\<in>set a. \<not> inTarget lib tgt x) \<and>
      opensTransaction lib cfg tgt (currentDatabase st0) g \<and>
      (\<forall>x\<in>set b. \<not> isGTIDEvent x \<and> \<not> commitsTransaction cfg x) \<and>
      commitsTransaction cfg c \<and>
      (\<forall>x\<in>set d. \<not> isGTIDEvent x)"
  proof -
    from h have 1: "scan lib cfg fp tgt (map ItemEv a) initialState = Ret (None, st0)"
      and 2: "\<forall>x\<in>set a. \<not> inTarget lib tgt x"
      and 3: "opensTransaction lib cfg tgt (currentDatabase st0) g"
      and 4: "\<forall>x\<in>set b. \<not> isGTIDEvent x \<and> \<not> commitsTransaction cfg x"
      and 5: "commitsTransaction cfg c"
      and 6: "\<forall>x\<in>set d. \<not> isGTIDEvent x"
      by blast+
    from single_match_shape [OF 1 2 3 4 5 6] show ?thesis .
  qed
  have stream: "searchBinlogFile lib (fileSearcher cfg items) fp tgt = Ret (Some r', None) \<and>
      ResumePosition r' = CommitPosition r' \<and> NextGTID r' = []"
    if h: "scan lib cfg fp tgt items initialState = Ret (None, st) \<and> result st = Some r'"
    using end_of_stream_result [OF conjunct1 [OF h] conjunct2 [OF h]] .
  from shape stream show ?thesis by blast
qed

text \<open>The theorem at a file of five events, and at a file with two transactions.\<close>

theorem single_match_resume_is_commit_witness:
  "(\<exists>r. searchBinlogFile refLib
          (fileSearcher plainConfig (map ItemEv [txn200early, txn50, insertQuery, xid2000, useQuery]))
          ''mysql-bin.000001'' targetU = Ret (Some r, None) \<and>
        ResumePosition r = CommitPosition r \<and> NextGTID r = [] \<and> CommitPosition r = 2000 \<and>
        GTID r = ''3e11fa47-71ca-11e1-9e33-c80aa9429562:50'') \<and>
   searchBinlogFile refLib (fileSearcher plainConfig (map ItemEv [txn50, xid2000, txn10, commit2600]))
       ''mysql-bin.000001'' targetU = Ret (Some match50, None) \<and>
   ResumePosition match50 = CommitPosition match50 \<and> NextGTID match50 = []"
proof -
  have shape: "scan refLib plainConfig ''mysql-bin.000001'' targetU (map ItemEv [txn200early]) initialState
      = Ret (None, initialState) \<and>
    (\<forall>x\<in>set [txn200early]. \<not> inTarget refLib targetU x) \<and>
    opensTransaction refLib plainConfig targetU (currentDatabase initialState) txn50 \<and>
    (\<forall>x\<in>set [insertQuery]. \<not> isGTIDEvent x \<and> \<not> commitsTransaction plainConfig x) \<and>
    commitsTransaction plainConfig xid2000 \<and>
    (\<forall>x\<in>set [useQuery]. \<not> isGTIDEvent x)"
    by code_simp
  have pos: "LogPos (Header xid2000) = 2000"
    by code_simp
  have gtid: "eventGTID txn50 = Some ''3e11fa47-71ca-11e1-9e33-c80aa9429562:50''"
    by code_simp
  have stream: "scan refLib plainConfig ''mysql-bin.000001'' targetU
      (map ItemEv [txn50, xid2000, txn10, commit2600]) initialState
      = Ret (None, \<lparr>result = Some match50, currentDatabase = [], currentTransaction = None\<rparr>) \<and>
    result \<lparr>result = Some match50, currentDatabase = [], currentTransaction = None\<rparr> = Some match50"
    by code_simp
  from single_match_resume_is_commit [THEN conjunct1, THEN mp, OF shape]
  have one: "\<exists>r. searchBinlogFile refLib
          (fileSearcher plainConfig (map ItemEv [txn200early, txn50, insertQuery, xid2000, useQuery]))
          ''mysql-bin.000001'' targetU = Ret (Some r, None) \<and>
        ResumePosition r = CommitPosition r \<and> NextGTID r = [] \<and> CommitPosition r = 2000 \<and>
        GTID r = ''3e11fa47-71ca-11e1-9e33-c80aa9429562:50''"
    by (simp add: pos gtid)
  from single_match_resume_is_commit [THEN conjunct2, THEN mp, OF stream]
  have two: "searchBinlogFile refLib (fileSearcher plainConfig (map ItemEv [txn50, xid2000, txn10, commit2600]))
       ''mysql-bin.000001'' targetU = Ret (Some match50, None) \<and>
     ResumePosition match50 = CommitPosition match50 \<and> NextGTID match50 = []" .
  from one two show ?thesis by (rule conjI)
qed

end
